theory Spec2Isabelle
  imports Complex_Main
begin

section \<open>JavaScript values shared by the modules\<close>

text \<open>
  A value that a \<^verbatim>\<open>throw\<close> or a rejected promise carries.  The sources only ever look at
  \<^verbatim>\<open>err instanceof Error\<close>, \<^verbatim>\<open>err.name\<close> and \<^verbatim>\<open>err.message\<close>, so an \<^verbatim>\<open>Error\<close> object is its
  name and its message, and every other thrown value is \<open>NonError\<close>.
\<close>

datatype js_throw = ErrorObj (err_name: string) (err_message: string) | NonError

text \<open>\<^verbatim>\<open>new Error(msg)\<close>: the name of a plain error is \<^verbatim>\<open>"Error"\<close>.\<close>

definition new_Error :: "string \<Rightarrow> js_throw" where
  "new_Error msg = ErrorObj ''Error'' msg"

text \<open>The values \<^verbatim>\<open>JSON.parse\<close> and \<^verbatim>\<open>response.json()\<close> produce.\<close>

datatype json =
    JNull
  | JBool bool
  | JNum rat
  | JStr string
  | JArr "json list"
  | JObj "(string \<times> json) list"

text \<open>Decimal rendering of an integer inside a template literal (\<^verbatim>\<open>`${response.status}`\<close>).\<close>

fun show_nat :: "nat \<Rightarrow> string" where
  "show_nat n =
     (if n < 10 then [''0123456789'' ! n]
      else show_nat (n div 10) @ [''0123456789'' ! (n mod 10)])"

declare show_nat.simps [simp del]

definition show_int :: "int \<Rightarrow> string" where
  "show_int i = (if i < 0 then CHR ''-'' # show_nat (nat (- i)) else show_nat (nat i))"

section \<open>The API client (src/api/client.ts)\<close>

subsection \<open>Circuit breaker state\<close>

text \<open>
  The field bag \<^verbatim>\<open>circuitBreaker\<close> of \<^verbatim>\<open>APIClient\<close>.  All four fields are JavaScript numbers
  holding integers (a counter and millisecond timestamps of \<^verbatim>\<open>Date.now()\<close>).
\<close>

record circuit_breaker =
  failures :: int
  cooldownUntil :: int
  maxFailures :: int
  cooldownMs :: int

text \<open>The configuration provider, as far as the client reads it.\<close>

record configuration =
  api_baseUrl :: string
  api_model :: string

text \<open>
  The field initialiser of the class: the constructor takes the configuration manager and the
  secret storage, and the breaker is the same literal whatever they are.
\<close>

definition new_circuitBreaker :: "configuration \<Rightarrow> circuit_breaker" where
  "new_circuitBreaker cfg =
     \<lparr> failures = 0, cooldownUntil = 0, maxFailures = 5, cooldownMs = 60000 \<rparr>"

text \<open>User-visible warnings (\<^verbatim>\<open>vscode.window.showWarningMessage\<close>): the cooldown in milliseconds.\<close>

datatype warning = TooManyErrors int

text \<open>
  \<^verbatim>\<open>handleFailure(status)\<close>; \<open>now\<close> is what \<^verbatim>\<open>Date.now()\<close> returns inside it.  The body has no
  \<^verbatim>\<open>await\<close>, so it is one atomic step.
\<close>

definition handleFailure :: "int \<Rightarrow> int \<Rightarrow> circuit_breaker \<Rightarrow> circuit_breaker \<times> warning list" where
  "handleFailure status now cb =
     (if status \<ge> 500 \<or> status = 429 then
        (let cb1 = cb\<lparr> failures := failures cb + 1 \<rparr> in
         if failures cb1 \<ge> maxFailures cb1
         then (cb1\<lparr> cooldownUntil := now + cooldownMs cb1 \<rparr>, [TooManyErrors (cooldownMs cb1)])
         else (cb1, []))
      else (cb, []))"

definition CircuitOpenError :: js_throw where
  "CircuitOpenError = new_Error ''Service is cooling down due to repeated failures''"

text \<open>\<^verbatim>\<open>checkCircuitBreaker()\<close>: \<open>None\<close> when it returns, \<open>Some e\<close> when it throws \<open>e\<close>.\<close>

definition checkCircuitBreaker :: "int \<Rightarrow> circuit_breaker \<Rightarrow> js_throw option" where
  "checkCircuitBreaker now cb =
     (if now < cooldownUntil cb then Some CircuitOpenError else None)"

subsection \<open>Credentials and headers\<close>

definition ConfigurationError :: js_throw where
  \<open>ConfigurationError =
     new_Error ''API key not configured. Run "MyAICopilot: Set API Key" command.''\<close>

text \<open>
  \<^verbatim>\<open>getApiKey()\<close>; the argument is what \<^verbatim>\<open>secretStorage.get(SECRET_KEY)\<close> resolves to
  (\<open>None\<close> for \<^verbatim>\<open>undefined\<close>).  \<^verbatim>\<open>!key\<close> is also true of the empty string.
\<close>

definition getApiKey :: "string option \<Rightarrow> js_throw + string" where
  "getApiKey stored =
     (case stored of
        None \<Rightarrow> Inl ConfigurationError
      | Some key \<Rightarrow> if key = [] then Inl ConfigurationError else Inr key)"

definition getHeaders :: "string \<Rightarrow> (string \<times> string) list" where
  "getHeaders apiKey =
     [(''Content-Type'', ''application/json''),
      (''Authorization'', ''Bearer '' @ apiKey),
      (''User-Agent'', ''MyAICopilot/0.1.0'')]"

subsection \<open>Requests and responses\<close>

datatype chat_role = System | User | Assistant

text \<open>The object given to \<^verbatim>\<open>JSON.stringify\<close> as the request body.\<close>

datatype request_body =
    CompletionBody (b_model: string) (b_prompt: string) (b_max_tokens: int)
                   (b_temperature: rat) (b_stream: bool)
  | ChatBody (b_model: string) (b_messages: "(chat_role \<times> string) list") (b_max_tokens: int)
             (b_temperature: rat) (b_stream: bool)

record request =
  req_method :: string
  req_url :: string
  req_headers :: "(string \<times> string) list"
  req_body :: "request_body option"

text \<open>
  A response as the client reads it: the status line, what \<^verbatim>\<open>response.json()\<close> and
  \<^verbatim>\<open>response.text()\<close> settle to, and the chunks of the body stream (\<open>None\<close> when
  \<^verbatim>\<open>response.body\<close> is null).  \<^verbatim>\<open>response.ok\<close> is the status being in the range 200 to 299.
\<close>

record response =
  status :: int
  statusText :: string
  resp_json :: "js_throw + json"
  resp_text :: "js_throw + string"
  resp_body :: "string list option"

definition ok :: "response \<Rightarrow> bool" where
  "ok r = (200 \<le> status r \<and> status r \<le> 299)"

text \<open>What the promise returned by \<^verbatim>\<open>fetch\<close> settles to.\<close>

datatype fetch_result = Rejected js_throw | Responded response

text \<open>
  What one call of a client operation leaves behind: the value or the thrown error, the
  breaker afterwards, the requests that went to the network and the warnings shown.
\<close>

record 'a outcome =
  result :: "js_throw + 'a"
  breaker :: circuit_breaker
  sent :: "request list"
  warnings :: "warning list"

subsection \<open>testConnection\<close>

text \<open>
  \<^verbatim>\<open>testConnection()\<close>.  \<open>stored\<close> is the credential lookup, \<open>fetch\<close> the network.  The ten-second
  timer aborts the request through the controller; the abort reaches the code as the
  rejection of \<open>fetch\<close> (or of \<^verbatim>\<open>response.json()\<close>).
\<close>

definition testConnection ::
  "configuration \<Rightarrow> string option \<Rightarrow> (request \<Rightarrow> fetch_result) \<Rightarrow> circuit_breaker \<Rightarrow> unit outcome" where
  "testConnection cfg stored fetch cb =
     (case getApiKey stored of
        Inl e \<Rightarrow> \<lparr> result = Inl e, breaker = cb, sent = [], warnings = [] \<rparr>
      | Inr apiKey \<Rightarrow>
          (let rq = \<lparr> req_method = ''GET'', req_url = api_baseUrl cfg @ ''/models'',
                      req_headers = [(''Authorization'', ''Bearer '' @ apiKey)],
                      req_body = None \<rparr>
           in case fetch rq of
                Rejected e \<Rightarrow> \<lparr> result = Inl e, breaker = cb, sent = [rq], warnings = [] \<rparr>
              | Responded r \<Rightarrow>
                  if \<not> ok r then
                    \<lparr> result = Inl (new_Error (''HTTP '' @ show_int (status r) @ '': '' @ statusText r)),
                      breaker = cb, sent = [rq], warnings = [] \<rparr>
                  else (case resp_json r of
                          Inl e \<Rightarrow> \<lparr> result = Inl e, breaker = cb, sent = [rq], warnings = [] \<rparr>
                        | Inr _ \<Rightarrow> \<lparr> result = Inr (), breaker = cb, sent = [rq], warnings = [] \<rparr>)))"

subsection \<open>createCompletion\<close>

record completion_request =
  prompt :: string
  maxTokens :: int
  temperature :: rat

text \<open>
  The \<^verbatim>\<open>catch\<close> block of \<^verbatim>\<open>createCompletion\<close>: an \<^verbatim>\<open>Error\<close> named \<^verbatim>\<open>AbortError\<close> is replaced,
  everything else is rethrown.
\<close>

definition rethrow :: "js_throw \<Rightarrow> js_throw" where
  "rethrow err =
     (case err of
        ErrorObj name msg \<Rightarrow>
          if name = ''AbortError'' then new_Error ''Request timeout or cancelled'' else err
      | NonError \<Rightarrow> err)"

text \<open>
  \<^verbatim>\<open>createCompletion(req)\<close>.  \<open>now1\<close> is the clock at \<^verbatim>\<open>checkCircuitBreaker\<close>, \<open>now2\<close> the clock
  inside \<^verbatim>\<open>handleFailure\<close>.  Which signal reaches \<open>fetch\<close> is the subject of \<open>mergeSignals\<close>
  below; here an abort is a rejection of \<open>fetch\<close> with an \<^verbatim>\<open>AbortError\<close>.
\<close>

definition createCompletion ::
  "configuration \<Rightarrow> string option \<Rightarrow> (request \<Rightarrow> fetch_result) \<Rightarrow> int \<Rightarrow> int \<Rightarrow>
   completion_request \<Rightarrow> circuit_breaker \<Rightarrow> json outcome" where
  "createCompletion cfg stored fetch now1 now2 req cb =
     (case checkCircuitBreaker now1 cb of
        Some e \<Rightarrow> \<lparr> result = Inl e, breaker = cb, sent = [], warnings = [] \<rparr>
      | None \<Rightarrow>
     (case getApiKey stored of
        Inl e \<Rightarrow> \<lparr> result = Inl e, breaker = cb, sent = [], warnings = [] \<rparr>
      | Inr apiKey \<Rightarrow>
          (let rq = \<lparr> req_method = ''POST'', req_url = api_baseUrl cfg @ ''/completions'',
                      req_headers = getHeaders apiKey,
                      req_body = Some (CompletionBody (api_model cfg) (prompt req) (maxTokens req)
                                         (temperature req) False) \<rparr>
           in case fetch rq of
                Rejected e \<Rightarrow> \<lparr> result = Inl (rethrow e), breaker = cb, sent = [rq], warnings = [] \<rparr>
              | Responded r \<Rightarrow>
                  if \<not> ok r then
                    (let (cb', ws) = handleFailure (status r) now2 cb in
                     \<lparr> result = Inl (rethrow (new_Error
                          (''API Error '' @ show_int (status r) @ '': '' @ statusText r))),
                       breaker = cb', sent = [rq], warnings = ws \<rparr>)
                  else
                    (let cb' = cb\<lparr> failures := 0 \<rparr> in
                     case resp_json r of
                       Inl e \<Rightarrow> \<lparr> result = Inl (rethrow e), breaker = cb', sent = [rq], warnings = [] \<rparr>
                     | Inr v \<Rightarrow> \<lparr> result = Inr v, breaker = cb', sent = [rq], warnings = [] \<rparr>))))"

subsection \<open>parseSSE\<close>

definition CR :: char where "CR = CHR 0x0D"
definition LF :: char where "LF = CHR 0x0A"

text \<open>
  \<^verbatim>\<open>buffer.split(/\r?\n/)\<close>: scanning from the left, a separator is a line feed, together with
  the carriage return right before it if there is one.  The result is never empty; a string
  without a separator is returned whole.
\<close>

fun split_lines :: "string \<Rightarrow> string list" where
  "split_lines [] = [[]]"
| "split_lines [c] = (if c = LF then [[], []] else [[c]])"
| "split_lines (c # d # cs) =
     (if c = CR \<and> d = LF then [] # split_lines cs
      else if c = LF then [] # split_lines (d # cs)
      else (case split_lines (d # cs) of
              [] \<Rightarrow> [[c]]
            | l # ls \<Rightarrow> (c # l) # ls))"

definition startsWith :: "string \<Rightarrow> string \<Rightarrow> bool" where
  "startsWith s p = (take (length p) s = p)"

text \<open>
  Property reads on a parsed value; \<open>None\<close> is \<^verbatim>\<open>undefined\<close>.  \<open>get_named\<close> is a read of one of
  the property names the sources use (\<^verbatim>\<open>choices\<close>, \<^verbatim>\<open>delta\<close>, \<^verbatim>\<open>content\<close>, \<^verbatim>\<open>text\<close>), which only an
  object can have as a property of its own; with duplicate keys the last one stands.
  \<open>get_index0\<close> is the read \<^verbatim>\<open>[0]\<close>.  Both are used behind \<^verbatim>\<open>?.\<close>, where \<^verbatim>\<open>null\<close> and
  \<^verbatim>\<open>undefined\<close> give \<^verbatim>\<open>undefined\<close>.
\<close>

fun get_named :: "string \<Rightarrow> json option \<Rightarrow> json option" where
  "get_named k (Some (JObj kvs)) = map_of (rev kvs) k"
| "get_named k _ = None"

fun get_index0 :: "json option \<Rightarrow> json option" where
  "get_index0 (Some (JArr (x # xs))) = Some x"
| "get_index0 (Some (JStr (c # cs))) = Some (JStr [c])"
| "get_index0 (Some (JObj kvs)) = map_of (rev kvs) ''0''"
| "get_index0 _ = None"

fun truthy :: "json option \<Rightarrow> bool" where
  "truthy None = False"
| "truthy (Some JNull) = False"
| "truthy (Some (JBool b)) = b"
| "truthy (Some (JNum n)) = (n \<noteq> 0)"
| "truthy (Some (JStr s)) = (s \<noteq> [])"
| "truthy (Some (JArr xs)) = True"
| "truthy (Some (JObj kvs)) = True"

text \<open>
  The \<^verbatim>\<open>try\<close> block for one \<^verbatim>\<open>data: \<close> line: \<open>parse\<close> is \<^verbatim>\<open>JSON.parse\<close> (\<open>None\<close> when it throws).
  \<^verbatim>\<open>parsed.choices\<close> on \<^verbatim>\<open>null\<close> throws as well; both land in the \<^verbatim>\<open>catch\<close>, which warns on the
  console and goes on.  The result is the value that is yielded, if one is.
\<close>

definition sse_content :: "(string \<Rightarrow> json option) \<Rightarrow> string \<Rightarrow> json option" where
  "sse_content parse data =
     (case parse data of
        None \<Rightarrow> None
      | Some parsed \<Rightarrow>
          if parsed = JNull then None
          else (let content =
                      get_named ''content'' (get_named ''delta''
                        (get_index0 (get_named ''choices'' (Some parsed))))
                in if truthy content then content else None))"

text \<open>
  The \<^verbatim>\<open>for\<close> loop over the complete lines of one read: the values yielded, and whether the
  \<^verbatim>\<open>[DONE]\<close> sentinel made the generator return.
\<close>

fun process_lines :: "(string \<Rightarrow> json option) \<Rightarrow> string list \<Rightarrow> json list \<times> bool" where
  "process_lines parse [] = ([], False)"
| "process_lines parse (line # rest) =
     (if startsWith line ''data: '' then
        (let data = drop 6 line in
         if data = ''[DONE]'' then ([], True)
         else (case sse_content parse data of
                 Some c \<Rightarrow> (let (ys, fin) = process_lines parse rest in (c # ys, fin))
               | None \<Rightarrow> process_lines parse rest))
      else process_lines parse rest)"

text \<open>How the generator ended: at the sentinel, at the end of the body, or on cancellation.\<close>

datatype sse_end = Done | Closed | Cancelled

text \<open>
  The \<^verbatim>\<open>while (true)\<close> loop.  The body stream is the list of chunks still to be read, after
  which \<^verbatim>\<open>reader.read()\<close> reports \<^verbatim>\<open>done\<close>; \<open>cancelled i\<close> is \<^verbatim>\<open>token?.isCancellationRequested\<close>
  at the top of round \<open>i\<close>.  A chunk is the text the streaming decoder hands over for it:
  the bodies considered here are ASCII, where that is the chunk itself.
\<close>

fun sse_loop ::
  "(string \<Rightarrow> json option) \<Rightarrow> (nat \<Rightarrow> bool) \<Rightarrow> nat \<Rightarrow> string \<Rightarrow> string list \<Rightarrow> json list \<times> sse_end" where
  "sse_loop parse cancelled i buffer [] =
     (if cancelled i then ([], Cancelled) else ([], Closed))"
| "sse_loop parse cancelled i buffer (chunk # rest) =
     (if cancelled i then ([], Cancelled)
      else (let lines = split_lines (buffer @ chunk);
                (ys, fin) = process_lines parse (butlast lines)
            in if fin then (ys, Done)
               else (let (zs, e) = sse_loop parse cancelled (Suc i) (last lines) rest
                     in (ys @ zs, e))))"

text \<open>
  \<^verbatim>\<open>parseSSE(response, token)\<close>, drained by its consumer: the fragments in order and how the
  sequence ended.  Without a token nothing is ever cancelled.
\<close>

definition parseSSE ::
  "(string \<Rightarrow> json option) \<Rightarrow> (nat \<Rightarrow> bool) option \<Rightarrow> string list option \<Rightarrow>
   json list \<times> (js_throw + sse_end)" where
  "parseSSE parse token body =
     (case body of
        None \<Rightarrow> ([], Inl (new_Error ''No response body for streaming''))
      | Some chunks \<Rightarrow>
          (let (ys, e) = sse_loop parse (case token of None \<Rightarrow> (\<lambda>_. False) | Some c \<Rightarrow> c) 0 [] chunks
           in (ys, Inr e)))"

subsection \<open>createChatCompletion\<close>

record chat_request =
  messages :: "(chat_role \<times> string) list"
  chat_maxTokens :: int
  chat_temperature :: rat

text \<open>
  \<^verbatim>\<open>createChatCompletion(req, token)\<close>, drained by its consumer.  The result of the call is
  the fragments yielded and the way the generator ended.
\<close>

definition createChatCompletion ::
  "configuration \<Rightarrow> string option \<Rightarrow> (request \<Rightarrow> fetch_result) \<Rightarrow> (string \<Rightarrow> json option) \<Rightarrow>
   int \<Rightarrow> int \<Rightarrow> chat_request \<Rightarrow> (nat \<Rightarrow> bool) option \<Rightarrow> circuit_breaker \<Rightarrow>
   (json list \<times> sse_end) outcome" where
  "createChatCompletion cfg stored fetch parse now1 now2 req token cb =
     (case checkCircuitBreaker now1 cb of
        Some e \<Rightarrow> \<lparr> result = Inl e, breaker = cb, sent = [], warnings = [] \<rparr>
      | None \<Rightarrow>
     (case getApiKey stored of
        Inl e \<Rightarrow> \<lparr> result = Inl e, breaker = cb, sent = [], warnings = [] \<rparr>
      | Inr apiKey \<Rightarrow>
          (let rq = \<lparr> req_method = ''POST'', req_url = api_baseUrl cfg @ ''/chat/completions'',
                      req_headers = getHeaders apiKey,
                      req_body = Some (ChatBody (api_model cfg) (messages req) (chat_maxTokens req)
                                         (chat_temperature req) True) \<rparr>
           in case fetch rq of
                Rejected e \<Rightarrow> \<lparr> result = Inl e, breaker = cb, sent = [rq], warnings = [] \<rparr>
              | Responded r \<Rightarrow>
                  if \<not> ok r then
                    (let (cb', ws) = handleFailure (status r) now2 cb in
                     case resp_text r of
                       Inl e \<Rightarrow> \<lparr> result = Inl e, breaker = cb', sent = [rq], warnings = ws \<rparr>
                     | Inr errorText \<Rightarrow>
                         \<lparr> result = Inl (new_Error
                              (''API Error '' @ show_int (status r) @ '': '' @ errorText)),
                           breaker = cb', sent = [rq], warnings = ws \<rparr>)
                  else
                    (let cb' = cb\<lparr> failures := 0 \<rparr> in
                     case parseSSE parse token (resp_body r) of
                       (ys, Inl e) \<Rightarrow> \<lparr> result = Inl e, breaker = cb', sent = [rq], warnings = [] \<rparr>
                     | (ys, Inr e) \<Rightarrow>
                         \<lparr> result = Inr (ys, e), breaker = cb', sent = [rq], warnings = [] \<rparr>))))"

subsection \<open>The breaker over time\<close>

text \<open>
  The breaker is written at two places only: \<^verbatim>\<open>handleFailure\<close> and the assignment
  \<^verbatim>\<open>this.circuitBreaker.failures = 0\<close> after a successful response.  Each is one atomic step,
  and calls in flight at the same time interleave such steps.
\<close>

datatype breaker_step = ReportFailure int int | ReportSuccess

fun apply_step :: "breaker_step \<Rightarrow> circuit_breaker \<Rightarrow> circuit_breaker" where
  "apply_step (ReportFailure st now) cb = fst (handleFailure st now cb)"
| "apply_step ReportSuccess cb = cb\<lparr> failures := 0 \<rparr>"

fun run_steps :: "breaker_step list \<Rightarrow> circuit_breaker \<Rightarrow> circuit_breaker" where
  "run_steps [] cb = cb"
| "run_steps (s # ss) cb = run_steps ss (apply_step s cb)"

text \<open>The clock readings of a run, in order.\<close>

fun step_times :: "breaker_step list \<Rightarrow> int list" where
  "step_times [] = []"
| "step_times (ReportFailure st now # ss) = now # step_times ss"
| "step_times (ReportSuccess # ss) = step_times ss"

text \<open>A failure that counts: a server error or a rate limit.\<close>

definition qualifying :: "int \<Rightarrow> bool" where
  "qualifying st = (st \<ge> 500 \<or> st = 429)"

text \<open>A run of \<^verbatim>\<open>handleFailure\<close> calls, each a status and the clock at the call.\<close>

fun run_failures :: "(int \<times> int) list \<Rightarrow> circuit_breaker \<Rightarrow> circuit_breaker" where
  "run_failures [] cb = cb"
| "run_failures ((st, now) # fs) cb = run_failures fs (fst (handleFailure st now cb))"

definition qualifying_failures :: "(int \<times> int) list \<Rightarrow> (int \<times> int) list" where
  "qualifying_failures fs = filter (\<lambda>f. qualifying (fst f)) fs"

section \<open>The cache manager (src/utils/cacheManager.ts)\<close>

text \<open>
  A \<^verbatim>\<open>CompletionCacheEntry\<close>: the cached item and its expiry, a millisecond timestamp.
\<close>

record 'v cache_entry =
  item :: 'v
  expiry :: int

text \<open>
  \<^verbatim>\<open>context.workspaceState\<close>, the keyed store behind the cache.  \<^verbatim>\<open>get\<close> is the lookup and
  \<^verbatim>\<open>update(key, value)\<close> changes the value that later reads see at once; what the returned
  promise reports is the write to disk, which the cache manager only logs.
  \<^verbatim>\<open>update(key, undefined)\<close> removes the key.
\<close>

type_synonym 'v workspace_state = "string \<rightharpoonup> 'v cache_entry"

definition update_state :: "string \<Rightarrow> 'v cache_entry option \<Rightarrow> 'v workspace_state \<Rightarrow> 'v workspace_state" where
  "update_state fullKey v ws = ws(fullKey := v)"

text \<open>\<^verbatim>\<open>delete(fullKey)\<close>.\<close>

definition delete_entry :: "string \<Rightarrow> 'v workspace_state \<Rightarrow> 'v workspace_state" where
  "delete_entry fullKey ws = update_state fullKey None ws"

text \<open>
  \<^verbatim>\<open>getCompletion(key)\<close>: the value returned and the store afterwards.  \<open>CACHE_PREFIX\<close> is the
  constant imported from \<^verbatim>\<open>constants.ts\<close>, \<open>now\<close> is \<^verbatim>\<open>Date.now()\<close>.
\<close>

definition getCompletion ::
  "string \<Rightarrow> int \<Rightarrow> string \<Rightarrow> 'v workspace_state \<Rightarrow> 'v option \<times> 'v workspace_state" where
  "getCompletion CACHE_PREFIX now key ws =
     (case ws (CACHE_PREFIX @ key) of
        None \<Rightarrow> (None, ws)
      | Some entry \<Rightarrow>
          if now > expiry entry then (None, delete_entry (CACHE_PREFIX @ key) ws)
          else (Some (item entry), ws))"

text \<open>\<^verbatim>\<open>setCompletion(key, item, ttlSeconds)\<close>.\<close>

definition setCompletion ::
  "string \<Rightarrow> int \<Rightarrow> string \<Rightarrow> 'v \<Rightarrow> int \<Rightarrow> 'v workspace_state \<Rightarrow> 'v workspace_state" where
  "setCompletion CACHE_PREFIX now key it ttlSeconds ws =
     update_state (CACHE_PREFIX @ key) (Some \<lparr> item = it, expiry = now + ttlSeconds * 1000 \<rparr>) ws"

section \<open>Abort signals and mergeSignals (src/api/client.ts)\<close>

text \<open>
  An \<^verbatim>\<open>AbortController\<close> with its signal: whether the signal is aborted, and its listeners for
  the \<^verbatim>\<open>abort\<close> event.  The only listeners the client registers are closures
  \<^verbatim>\<open>() => controller.abort()\<close>, so a listener is the controller it aborts.  Controllers live in a
  store and are named by their index in it.
\<close>

record abort_signal =
  aborted :: bool
  listeners :: "nat list"

type_synonym signal_store = "abort_signal list"

text \<open>\<^verbatim>\<open>new AbortController()\<close>: the new controller and the store with it.\<close>

definition new_AbortController :: "signal_store \<Rightarrow> nat \<times> signal_store" where
  "new_AbortController h = (length h, h @ [\<lparr> aborted = False, listeners = [] \<rparr>])"

text \<open>
  \<^verbatim>\<open>signal.addEventListener("abort", () => target.abort(), { once: true })\<close>.  The listener is
  added whatever the state of the signal; it runs when the event is dispatched, which happens
  once, at the moment the signal becomes aborted.
\<close>

definition addEventListener :: "nat \<Rightarrow> nat \<Rightarrow> signal_store \<Rightarrow> signal_store" where
  "addEventListener s target h =
     (if s < length h then h[s := (h ! s)\<lparr> listeners := listeners (h ! s) @ [target] \<rparr>] else h)"

definition live_signals :: "signal_store \<Rightarrow> nat" where
  "live_signals h = length (filter (\<lambda>s. \<not> aborted s) h)"

text \<open>
  \<^verbatim>\<open>controller.abort()\<close> for the controllers of a work list, in order.  Aborting a controller
  whose signal is already aborted does nothing.  Otherwise the signal becomes aborted and the
  event is dispatched: its listeners run at once, each aborting its controller before the
  next one runs.
\<close>

function abort_all :: "nat list \<Rightarrow> signal_store \<Rightarrow> signal_store" where
  "abort_all [] h = h"
| "abort_all (c # cs) h =
     (if c < length h \<and> \<not> aborted (h ! c)
      then abort_all (listeners (h ! c) @ cs) (h[c := (h ! c)\<lparr> aborted := True \<rparr>])
      else abort_all cs h)"
  by pat_completeness auto

lemma live_signals_abort:
  "c < length h \<Longrightarrow> \<not> aborted (h ! c) \<Longrightarrow>
   live_signals (h[c := (h ! c)\<lparr> aborted := True \<rparr>]) < live_signals h"
proof (induction h arbitrary: c)
  case Nil
  then show ?case by simp
next
  case (Cons x xs)
  show ?case
  proof (cases c)
    case 0
    then show ?thesis using Cons.prems by (simp add: live_signals_def)
  next
    case (Suc n)
    then show ?thesis using Cons.IH [of n] Cons.prems by (simp add: live_signals_def)
  qed
qed

termination abort_all
  by (relation "measures [\<lambda>(cs, h). live_signals h, \<lambda>(cs, h). length cs]")
     (auto simp: live_signals_abort)

definition abort :: "nat \<Rightarrow> signal_store \<Rightarrow> signal_store" where
  "abort c h = abort_all [c] h"

text \<open>
  \<^verbatim>\<open>mergeSignals(signal1, signal2)\<close>: the controller whose signal is returned, and the store
  afterwards.
\<close>

definition mergeSignals :: "nat \<Rightarrow> nat \<Rightarrow> signal_store \<Rightarrow> nat \<times> signal_store" where
  "mergeSignals signal1 signal2 h =
     (let (controller, h1) = new_AbortController h;
          h2 = addEventListener signal1 controller h1;
          h3 = addEventListener signal2 controller h2
      in (controller, h3))"

text \<open>
  The signal \<^verbatim>\<open>createCompletion\<close> hands to \<^verbatim>\<open>fetch\<close>: it makes its own controller for the timeout
  and merges its signal with \<^verbatim>\<open>req.signal\<close> when the request has one.
\<close>

definition completion_signal :: "nat option \<Rightarrow> signal_store \<Rightarrow> nat \<times> nat \<times> signal_store" where
  "completion_signal req_signal h =
     (let (controller, h1) = new_AbortController h
      in case req_signal of
           Some s \<Rightarrow> (let (m, h2) = mergeSignals controller s h1 in (controller, m, h2))
         | None \<Rightarrow> (controller, controller, h1))"

section \<open>The completion provider (src/providers/completionProvider.ts)\<close>

subsection \<open>fetchCompletion\<close>

text \<open>
  A \<^verbatim>\<open>vscode.InlineCompletionItem\<close> as the provider builds it: the cleaned text and the argument
  of its acceptance command, the cache key.  (Its range is the cursor position, which plays
  no part below.)
\<close>

record inline_item =
  insertText :: string
  command_argument :: string

text \<open>Calls of the logger: \<^verbatim>\<open>logger.debug(message)\<close> and \<^verbatim>\<open>logger.error(message, err)\<close>.\<close>

datatype log_entry = LogDebug string | LogError string js_throw

text \<open>\<^verbatim>\<open>s.includes(p)\<close>: \<open>p\<close> occurs in \<open>s\<close>.\<close>

fun includes_str :: "string \<Rightarrow> string \<Rightarrow> bool" where
  "includes_str [] p = (p = [])"
| "includes_str (c # cs) p = (startsWith (c # cs) p \<or> includes_str cs p)"

text \<open>
  \<^verbatim>\<open>String.prototype.trim\<close> on the ASCII white space characters (space, tab, line feed,
  vertical tab, form feed, carriage return).
\<close>

definition is_space :: "char \<Rightarrow> bool" where
  "is_space c = (c \<in> set [CHR '' '', CHR 0x09, CHR 0x0A, CHR 0x0B, CHR 0x0C, CHR 0x0D])"

definition trim :: "string \<Rightarrow> string" where
  "trim s = rev (dropWhile is_space (rev (dropWhile is_space s)))"

text \<open>
  \<^verbatim>\<open>completion.choices?.[0]?.text || ""\<close> followed by \<^verbatim>\<open>this.cleanResponse(suggestion)\<close>.  Reading
  \<^verbatim>\<open>choices\<close> of \<^verbatim>\<open>null\<close> throws a \<^verbatim>\<open>TypeError\<close>, and so does \<^verbatim>\<open>text.replace\<close> when the text is
  truthy and not a string.  \<open>cleanResponse\<close> itself, a chain of regular-expression
  replacements on a string that cannot throw, is a parameter: nothing below depends on the
  text it returns.
\<close>

definition cleaned_suggestion :: "(string \<Rightarrow> string) \<Rightarrow> json \<Rightarrow> js_throw + string" where
  "cleaned_suggestion cleanResponse completion =
     (if completion = JNull
      then Inl (ErrorObj ''TypeError'' ''Cannot read properties of null (reading 'choices')'')
      else (let suggestion = get_named ''text'' (get_index0 (get_named ''choices'' (Some completion)))
            in if truthy suggestion
               then (case suggestion of
                       Some (JStr s) \<Rightarrow> Inr (cleanResponse s)
                     | _ \<Rightarrow> Inl (ErrorObj ''TypeError'' ''text.replace is not a function''))
               else Inr (cleanResponse [])))"

text \<open>
  The \<^verbatim>\<open>catch\<close> block: what is returned and what is logged for a thrown value \<open>err\<close>.
\<close>

definition fetchCompletion_catch :: "js_throw \<Rightarrow> inline_item list \<times> log_entry list" where
  "fetchCompletion_catch err =
     (case err of
        ErrorObj name msg \<Rightarrow>
          if name = ''AbortError'' \<or> includes_str msg ''cancelled'' then ([], [])
          else ([], [LogError ''Completion failed:'' err])
      | NonError \<Rightarrow> ([], []))"

text \<open>
  What the platform hands to the client when a promise it awaits is rejected.  \<^verbatim>\<open>fetch\<close> rejects
  with a \<^verbatim>\<open>TypeError\<close> or with the abort reason of its signal, and every \<^verbatim>\<open>abort()\<close> in the
  sources is called without an argument, so that reason is the default \<^verbatim>\<open>AbortError\<close>;
  \<^verbatim>\<open>response.json()\<close> rejects with a \<^verbatim>\<open>SyntaxError\<close>, a \<^verbatim>\<open>TypeError\<close> or that \<^verbatim>\<open>AbortError\<close>.  All of
  these are \<^verbatim>\<open>Error\<close> objects.
\<close>

definition platform_answer :: "fetch_result \<Rightarrow> bool" where
  "platform_answer a =
     (case a of
        Rejected e \<Rightarrow> e \<noteq> NonError
      | Responded r \<Rightarrow> resp_json r \<noteq> Inl NonError)"

text \<open>What a call of \<^verbatim>\<open>fetchCompletion\<close> leaves behind.\<close>

record fetch_outcome =
  returned :: "js_throw + inline_item list"
  logged :: "log_entry list"
  cache_after :: "inline_item workspace_state"
  called_api :: bool

text \<open>
  \<^verbatim>\<open>fetchCompletion(document, position, token)\<close>.  \<open>cacheKey\<close> is what \<^verbatim>\<open>generateCacheKey\<close>
  returns for the document and position (\<^verbatim>\<open>completion:\<close> and a hash, computed without a
  failing step), \<open>now1\<close> and \<open>now2\<close> are the clock at the cache read and at the cache write,
  \<open>ttlSeconds\<close> is the setting \<^verbatim>\<open>cache.ttlSeconds\<close>, and \<open>completion\<close> is what the promise of
  \<^verbatim>\<open>this.api.createCompletion(...)\<close> settles to.  The bookkeeping of the provider's abort
  controller around the call does not enter the result.
\<close>

definition fetchCompletion ::
  "(string \<Rightarrow> string) \<Rightarrow> string \<Rightarrow> string \<Rightarrow> int \<Rightarrow> int \<Rightarrow> int \<Rightarrow> (js_throw + json) \<Rightarrow>
   inline_item workspace_state \<Rightarrow> fetch_outcome" where
  "fetchCompletion cleanResponse CACHE_PREFIX cacheKey now1 now2 ttlSeconds completion ws =
     (case getCompletion CACHE_PREFIX now1 cacheKey ws of
        (Some cached, ws1) \<Rightarrow>
          \<lparr> returned = Inr [cached], logged = [LogDebug ''Cache hit for completion''],
            cache_after = ws1, called_api = False \<rparr>
      | (None, ws1) \<Rightarrow>
          (case (case completion of
                   Inl err \<Rightarrow> Inl err
                 | Inr c \<Rightarrow> cleaned_suggestion cleanResponse c) of
             Inl err \<Rightarrow>
               (let (items, logs) = fetchCompletion_catch err
                in \<lparr> returned = Inr items, logged = logs, cache_after = ws1, called_api = True \<rparr>)
           | Inr cleaned \<Rightarrow>
               if trim cleaned = [] then
                 \<lparr> returned = Inr [], logged = [], cache_after = ws1, called_api = True \<rparr>
               else
                 (let it = \<lparr> insertText = cleaned, command_argument = cacheKey \<rparr>
                  in \<lparr> returned = Inr [it],
                       logged = [LogDebug ''Completion generated successfully''],
                       cache_after = setCompletion CACHE_PREFIX now2 cacheKey it ttlSeconds ws1,
                       called_api = True \<rparr>)))"

subsection \<open>provideInlineCompletionItems and the debounce timer\<close>

text \<open>
  Timers of \<^verbatim>\<open>setTimeout\<close>: a timer is armed until it fires or is cleared, and it carries the
  promise its callback resolves.  A promise is pending until it is resolved; the promises of
  \<^verbatim>\<open>provideInlineCompletionItems\<close> are never rejected by the code.
\<close>

datatype timer_state = Armed | Cleared | Fired

datatype promise_state = Pending | Resolved "inline_item list"

record provider_world =
  timers :: "(timer_state \<times> nat) list"
  promises :: "promise_state list"
  debounceTimer :: "nat option"

definition new_provider :: provider_world where
  "new_provider = \<lparr> timers = [], promises = [], debounceTimer = None \<rparr>"

text \<open>\<^verbatim>\<open>clearTimeout(t)\<close>: an armed timer is cleared, any other is left alone.\<close>

definition clearTimeout :: "nat \<Rightarrow> provider_world \<Rightarrow> provider_world" where
  "clearTimeout t w =
     (if t < length (timers w) \<and> fst (timers w ! t) = Armed
      then w\<lparr> timers := (timers w)[t := (Cleared, snd (timers w ! t))] \<rparr>
      else w)"

text \<open>
  What happens to a provider: a call of \<^verbatim>\<open>provideInlineCompletionItems\<close> for a document whose
  language is not supported, a manual invocation (with what \<^verbatim>\<open>fetchCompletion\<close> returns), an
  automatic trigger, or an armed timer firing (with \<^verbatim>\<open>token.isCancellationRequested\<close> at that
  moment and what \<^verbatim>\<open>fetchCompletion\<close> returns).
\<close>

datatype provider_event =
    CallUnsupported
  | CallInvoke "inline_item list"
  | CallAutomatic
  | TimerFires nat bool "inline_item list"

text \<open>
  One event.  Every call returns a new promise, the last of \<open>promises\<close>.  For an automatic
  trigger the pending timer, if there is one, is cleared, and the new promise is resolved
  only by the callback of the new timer.
\<close>

fun provider_step :: "provider_event \<Rightarrow> provider_world \<Rightarrow> provider_world" where
  "provider_step CallUnsupported w = w\<lparr> promises := promises w @ [Resolved []] \<rparr>"
| "provider_step (CallInvoke items) w = w\<lparr> promises := promises w @ [Resolved items] \<rparr>"
| "provider_step CallAutomatic w =
     (let w1 = (case debounceTimer w of Some t \<Rightarrow> clearTimeout t w | None \<Rightarrow> w)
      in w1\<lparr> timers := timers w1 @ [(Armed, length (promises w1))],
             promises := promises w1 @ [Pending],
             debounceTimer := Some (length (timers w1)) \<rparr>)"
| "provider_step (TimerFires t cancelled items) w =
     (if t < length (timers w) \<and> fst (timers w ! t) = Armed
      then w\<lparr> timers := (timers w)[t := (Fired, snd (timers w ! t))],
             promises := (promises w)[snd (timers w ! t) :=
                            Resolved (if cancelled then [] else items)] \<rparr>
      else w)"

fun provider_run :: "provider_event list \<Rightarrow> provider_world \<Rightarrow> provider_world" where
  "provider_run [] w = w"
| "provider_run (e # es) w = provider_run es (provider_step e w)"

definition is_fire_of :: "nat \<Rightarrow> provider_event \<Rightarrow> bool" where
  "is_fire_of t e = (case e of TimerFires t' c xs \<Rightarrow> t' = t | _ \<Rightarrow> False)"

text \<open>Invariants of the provider, used for the debounce timer.\<close>

text \<open>Every timer resolves a promise that exists.\<close>

definition targets_exist :: "provider_world \<Rightarrow> bool" where
  "targets_exist w = (\<forall>i < length (timers w). snd (timers w ! i) < length (promises w))"

text \<open>The promise \<open>p\<close> is pending and no armed timer resolves it.\<close>

definition abandoned :: "nat \<Rightarrow> provider_world \<Rightarrow> bool" where
  "abandoned p w =
     (p < length (promises w) \<and> promises w ! p = Pending
      \<and> (\<forall>i < length (timers w). snd (timers w ! i) = p \<longrightarrow> fst (timers w ! i) \<noteq> Armed))"

text \<open>The promise \<open>p\<close> is pending and waits for timer \<open>t\<close>, the provider's current timer.\<close>

definition waiting :: "nat \<Rightarrow> nat \<Rightarrow> provider_world \<Rightarrow> bool" where
  "waiting t p w =
     (targets_exist w \<and> p < length (promises w) \<and> promises w ! p = Pending
      \<and> t < length (timers w) \<and> timers w ! t = (Armed, p) \<and> debounceTimer w = Some t
      \<and> (\<forall>i < length (timers w). i \<noteq> t \<longrightarrow> snd (timers w ! i) \<noteq> p))"

text \<open>The provider after the \<^verbatim>\<open>clearTimeout\<close> of an automatic trigger.\<close>

definition cleared :: "provider_world \<Rightarrow> provider_world" where
  "cleared w = (case debounceTimer w of Some t \<Rightarrow> clearTimeout t w | None \<Rightarrow> w)"

section \<open>A JSON reader\<close>

text \<open>
  \<^verbatim>\<open>JSON.parse\<close> belongs to the platform, and the stream parser above takes it as a parameter.
  This is a reader to put in its place where a stream is run on concrete text: a recursive
  descent over objects, arrays, strings with the one-letter escapes, numbers and the three
  literals.  It does not read \<^verbatim>\<open>\u\<close> escapes.  The fuel bounds the nesting depth plus the
  number of elements, and the reader gives up (as on a syntax error) when it runs out.
\<close>

definition is_json_ws :: "char \<Rightarrow> bool" where
  "is_json_ws c = (c \<in> set [CHR '' '', CHR 0x09, CHR 0x0A, CHR 0x0D])"

definition skip_ws :: "string \<Rightarrow> string" where
  "skip_ws s = dropWhile is_json_ws s"

definition unescape :: "char \<Rightarrow> char option" where
  "unescape e =
     (if e = CHR 0x22 then Some (CHR 0x22)
      else if e = CHR 0x5C then Some (CHR 0x5C)
      else if e = CHR ''/'' then Some (CHR ''/'')
      else if e = CHR ''b'' then Some (CHR 0x08)
      else if e = CHR ''f'' then Some (CHR 0x0C)
      else if e = CHR ''n'' then Some (CHR 0x0A)
      else if e = CHR ''r'' then Some (CHR 0x0D)
      else if e = CHR ''t'' then Some (CHR 0x09)
      else None)"

text \<open>The text after an opening quote: the string and what follows its closing quote.\<close>

fun parse_string_body :: "string \<Rightarrow> (string \<times> string) option" where
  "parse_string_body [] = None"
| "parse_string_body [c] = (if c = CHR 0x22 then Some ([], []) else None)"
| "parse_string_body (c # e # cs) =
     (if c = CHR 0x22 then Some ([], e # cs)
      else if c = CHR 0x5C then
        (case unescape e of
           None \<Rightarrow> None
         | Some ch \<Rightarrow> (case parse_string_body cs of
                         None \<Rightarrow> None
                       | Some (s, r) \<Rightarrow> Some (ch # s, r)))
      else if (of_char c :: nat) < 32 then None
      else (case parse_string_body (e # cs) of
              None \<Rightarrow> None
            | Some (s, r) \<Rightarrow> Some (c # s, r)))"

definition is_digit :: "char \<Rightarrow> bool" where
  "is_digit c = (48 \<le> (of_char c :: nat) \<and> (of_char c :: nat) \<le> 57)"

definition digits_val :: "string \<Rightarrow> nat" where
  "digits_val ds = foldl (\<lambda>a c. 10 * a + (of_char c - 48)) 0 ds"

text \<open>
  A number: an optional sign, an integer part without a leading zero, an optional fraction
  and an optional exponent.
\<close>

definition parse_number :: "string \<Rightarrow> (rat \<times> string) option" where
  "parse_number s =
     (let neg = (s \<noteq> [] \<and> hd s = CHR ''-'');
          s1 = (if neg then tl s else s);
          ip = takeWhile is_digit s1;
          s2 = dropWhile is_digit s1;
          has_frac = (s2 \<noteq> [] \<and> hd s2 = CHR ''.'');
          fp = (if has_frac then takeWhile is_digit (tl s2) else []);
          s3 = (if has_frac then dropWhile is_digit (tl s2) else s2);
          has_exp = (s3 \<noteq> [] \<and> (hd s3 = CHR ''e'' \<or> hd s3 = CHR ''E''));
          s4 = (if has_exp then tl s3 else s3);
          exp_neg = (has_exp \<and> s4 \<noteq> [] \<and> hd s4 = CHR ''-'');
          s5 = (if has_exp \<and> s4 \<noteq> [] \<and> (hd s4 = CHR ''-'' \<or> hd s4 = CHR ''+'') then tl s4 else s4);
          ep = (if has_exp then takeWhile is_digit s5 else []);
          s6 = (if has_exp then dropWhile is_digit s5 else s3);
          mantissa = (of_nat (digits_val ip) :: rat) + of_nat (digits_val fp) / 10 ^ length fp;
          scaled = (if exp_neg then mantissa / 10 ^ digits_val ep else mantissa * 10 ^ digits_val ep)
      in if ip = [] \<or> (length ip > 1 \<and> hd ip = CHR ''0'') \<or> (has_frac \<and> fp = [])
            \<or> (has_exp \<and> ep = [])
         then None
         else Some (if neg then - scaled else scaled, s6))"

fun parse_value :: "nat \<Rightarrow> string \<Rightarrow> (json \<times> string) option"
  and parse_elements :: "nat \<Rightarrow> string \<Rightarrow> (json list \<times> string) option"
  and parse_members :: "nat \<Rightarrow> string \<Rightarrow> ((string \<times> json) list \<times> string) option" where
  "parse_value 0 s = None"
| "parse_value (Suc n) s =
     (case skip_ws s of
        [] \<Rightarrow> None
      | c # cs \<Rightarrow>
          if c = CHR ''{'' then
            (case skip_ws cs of
               [] \<Rightarrow> None
             | d # ds \<Rightarrow>
                 if d = CHR ''}'' then Some (JObj [], ds)
                 else (case parse_members n cs of
                         None \<Rightarrow> None
                       | Some (m, r) \<Rightarrow> Some (JObj m, r)))
          else if c = CHR ''['' then
            (case skip_ws cs of
               [] \<Rightarrow> None
             | d # ds \<Rightarrow>
                 if d = CHR '']'' then Some (JArr [], ds)
                 else (case parse_elements n cs of
                         None \<Rightarrow> None
                       | Some (vs, r) \<Rightarrow> Some (JArr vs, r)))
          else if c = CHR 0x22 then
            (case parse_string_body cs of
               None \<Rightarrow> None
             | Some (str, r) \<Rightarrow> Some (JStr str, r))
          else if startsWith (c # cs) ''true'' then Some (JBool True, drop 4 (c # cs))
          else if startsWith (c # cs) ''false'' then Some (JBool False, drop 5 (c # cs))
          else if startsWith (c # cs) ''null'' then Some (JNull, drop 4 (c # cs))
          else (case parse_number (c # cs) of
                  None \<Rightarrow> None
                | Some (q, r) \<Rightarrow> Some (JNum q, r)))"
| "parse_elements 0 s = None"
| "parse_elements (Suc n) s =
     (case parse_value n s of
        None \<Rightarrow> None
      | Some (v, r) \<Rightarrow>
          (case skip_ws r of
             [] \<Rightarrow> None
           | c # cs \<Rightarrow>
               if c = CHR '','' then
                 (case parse_elements n cs of
                    None \<Rightarrow> None
                  | Some (vs, r') \<Rightarrow> Some (v # vs, r'))
               else if c = CHR '']'' then Some ([v], cs)
               else None))"
| "parse_members 0 s = None"
| "parse_members (Suc n) s =
     (case skip_ws s of
        [] \<Rightarrow> None
      | c # cs \<Rightarrow>
          if c \<noteq> CHR 0x22 then None
          else (case parse_string_body cs of
                  None \<Rightarrow> None
                | Some (k, r) \<Rightarrow>
                    (case skip_ws r of
                       [] \<Rightarrow> None
                     | d # ds \<Rightarrow>
                         if d \<noteq> CHR '':'' then None
                         else (case parse_value n ds of
                                 None \<Rightarrow> None
                               | Some (v, r') \<Rightarrow>
                                   (case skip_ws r' of
                                      [] \<Rightarrow> None
                                    | e # es \<Rightarrow>
                                        if e = CHR '','' then
                                          (case parse_members n es of
                                             None \<Rightarrow> None
                                           | Some (m, r'') \<Rightarrow> Some ((k, v) # m, r''))
                                        else if e = CHR ''}'' then Some ([(k, v)], es)
                                        else None)))))"

text \<open>The whole text is one value, with white space around it at most.\<close>

definition json_parse :: "string \<Rightarrow> json option" where
  "json_parse s =
     (case parse_value (2 * length s + 2) s of
        None \<Rightarrow> None
      | Some (v, r) \<Rightarrow> if skip_ws r = [] then Some v else None)"

section \<open>The stream of the wire contract\<close>

text \<open>
  The two records and the body of the test stream: each \<^verbatim>\<open>data: \<close> line is followed by an empty
  line, and the last record is the \<^verbatim>\<open>[DONE]\<close> sentinel.
\<close>

definition payload_ab :: string where
  \<open>payload_ab = ''{"choices":[{"delta":{"content":"ab"}}]}''\<close>

definition payload_cd :: string where
  \<open>payload_cd = ''{"choices":[{"delta":{"content":"cd"}}]}''\<close>

definition sse_body :: string where
  "sse_body = ''data: '' @ payload_ab @ [LF, LF] @ ''data: '' @ payload_cd @ [LF, LF]
              @ ''data: [DONE]'' @ [LF, LF]"

text \<open>The same stream with \<^verbatim>\<open>\r\n\<close> line ends.\<close>

definition sse_body_crlf :: string where
  "sse_body_crlf = ''data: '' @ payload_ab @ [CR, LF, CR, LF] @ ''data: '' @ payload_cd
                   @ [CR, LF, CR, LF] @ ''data: [DONE]'' @ [CR, LF, CR, LF]"

text \<open>What the two records denote.\<close>

definition delta_record :: "string \<Rightarrow> json" where
  "delta_record s =
     JObj [(''choices'', JArr [JObj [(''delta'', JObj [(''content'', JStr s)])]])]"

section \<open>Example inputs\<close>

text \<open>Concrete values at which the theorems below are instantiated.\<close>

definition example_cfg :: configuration where
  "example_cfg = \<lparr> api_baseUrl = ''https://api.example.com/v1'', api_model = ''m1'' \<rparr>"

definition example_request :: completion_request where
  "example_request = \<lparr> prompt = ''x = '', maxTokens = 16, temperature = 0 \<rparr>"

definition example_chat_request :: chat_request where
  "example_chat_request = \<lparr> messages = [(User, ''hi'')], chat_maxTokens = 16, chat_temperature = 0 \<rparr>"

definition response_500 :: response where
  "response_500 = \<lparr> status = 500, statusText = ''Internal Server Error'',
       resp_json = Inr JNull, resp_text = Inr ''upstream down'', resp_body = None \<rparr>"

definition response_200 :: response where
  "response_200 = \<lparr> status = 200, statusText = ''OK'',
       resp_json = Inr (JObj [(''choices'', JArr [JObj [(''text'', JStr ''1'')]])]),
       resp_text = Inr [], resp_body = Some [] \<rparr>"

text \<open>
  Six reported failures, five of them qualifying (the 404 is not), the last one at time 5000:
  the run that trips a fresh breaker until time 65000.
\<close>

definition example_failures :: "(int \<times> int) list" where
  "example_failures = [(500, 1000), (429, 2000), (503, 3000), (404, 3500), (500, 4000), (502, 5000)]"

definition tripped_breaker :: circuit_breaker where
  "tripped_breaker = run_failures example_failures (new_circuitBreaker example_cfg)"

text \<open>Two qualifying failures on a fresh breaker: still closed, with the counter at 2.\<close>

definition warm_breaker :: circuit_breaker where
  "warm_breaker = run_failures [(500, 1), (429, 2)] (new_circuitBreaker example_cfg)"

text \<open>The same run as breaker steps, and two networks that always give the same answer.\<close>

definition example_steps :: "breaker_step list" where
  "example_steps = [ReportFailure 500 1000, ReportFailure 429 2000, ReportFailure 503 3000,
                    ReportFailure 404 3500, ReportFailure 500 4000, ReportFailure 502 5000]"

definition network_200 :: "request \<Rightarrow> fetch_result" where
  "network_200 rq = Responded response_200"

definition network_500 :: "request \<Rightarrow> fetch_result" where
  "network_500 rq = Responded response_500"

text \<open>A network whose request is aborted.\<close>

definition network_aborted :: "request \<Rightarrow> fetch_result" where
  "network_aborted rq = Rejected (ErrorObj ''AbortError'' ''The operation was aborted.'')"

text \<open>The two ways the client call of the pipeline fails in the examples.\<close>

definition failed_500 :: "js_throw + json" where
  "failed_500 = result (createCompletion example_cfg (Some ''sk-1'') network_500 1000 1001
                          example_request (new_circuitBreaker example_cfg))"

definition failed_aborted :: "js_throw + json" where
  "failed_aborted = result (createCompletion example_cfg (Some ''sk-1'') network_aborted 1000 1001
                              example_request (new_circuitBreaker example_cfg))"

text \<open>
  A provider with some history: a manual invocation, then an automatic trigger whose timer
  fired.
\<close>

definition example_provider :: provider_world where
  "example_provider = provider_run [CallInvoke [], CallAutomatic, TimerFires 0 False []] new_provider"

section \<open>Properties of the circuit breaker\<close>

lemma tripped_breaker_eq:
  "tripped_breaker = \<lparr> failures = 5, cooldownUntil = 65000, maxFailures = 5, cooldownMs = 60000 \<rparr>"
  by (simp add: tripped_breaker_def example_failures_def new_circuitBreaker_def handleFailure_def)

lemma handleFailure_constants:
  "maxFailures (fst (handleFailure st now cb)) = maxFailures cb"
  "cooldownMs (fst (handleFailure st now cb)) = cooldownMs cb"
  by (simp_all add: handleFailure_def Let_def)

lemma apply_step_constants:
  "maxFailures (apply_step s cb) = maxFailures cb"
  "cooldownMs (apply_step s cb) = cooldownMs cb"
  by (cases s; simp add: handleFailure_constants)+

lemma run_steps_constants:
  "maxFailures (run_steps ss cb) = maxFailures cb \<and> cooldownMs (run_steps ss cb) = cooldownMs cb"
  by (induction ss arbitrary: cb) (simp_all add: apply_step_constants)

text \<open>
  What an operation does to the breaker is nothing, one report of a failure, or one report
  of a success.
\<close>

lemma testConnection_breaker: "breaker (testConnection cfg stored fetch cb) = cb"
  by (simp add: testConnection_def Let_def split: sum.splits fetch_result.splits)

lemma createCompletion_breaker:
  "breaker (createCompletion cfg stored fetch now1 now2 req cb) = cb
   \<or> (\<exists>st. breaker (createCompletion cfg stored fetch now1 now2 req cb)
            = apply_step (ReportFailure st now2) cb)
   \<or> breaker (createCompletion cfg stored fetch now1 now2 req cb) = apply_step ReportSuccess cb"
  unfolding createCompletion_def Let_def
  by (simp split: option.splits sum.splits fetch_result.splits prod.splits) (metis fst_conv)

lemma createChatCompletion_breaker:
  "breaker (createChatCompletion cfg stored fetch parse now1 now2 req token cb) = cb
   \<or> (\<exists>st. breaker (createChatCompletion cfg stored fetch parse now1 now2 req token cb)
            = apply_step (ReportFailure st now2) cb)
   \<or> breaker (createChatCompletion cfg stored fetch parse now1 now2 req token cb)
       = apply_step ReportSuccess cb"
  unfolding createChatCompletion_def Let_def
  by (simp split: option.splits sum.splits fetch_result.splits prod.splits) (metis fst_conv)

text \<open>
  C8: the threshold and the cooldown of every client are the constants 5 and 60000 ms.  They
  do not depend on the configuration the client was constructed with, and no run of breaker
  steps and no client operation, under whatever configuration, changes them.
\<close>

theorem circuit_breaker_constants_fixed:
  "maxFailures (new_circuitBreaker cfg) = 5 \<and> cooldownMs (new_circuitBreaker cfg) = 60000
   \<and> maxFailures (run_steps ss (new_circuitBreaker cfg)) = 5
   \<and> cooldownMs (run_steps ss (new_circuitBreaker cfg)) = 60000
   \<and> maxFailures (breaker (testConnection cfg' stored fetch cb)) = maxFailures cb
   \<and> cooldownMs (breaker (testConnection cfg' stored fetch cb)) = cooldownMs cb
   \<and> maxFailures (breaker (createCompletion cfg' stored fetch now1 now2 req cb)) = maxFailures cb
   \<and> cooldownMs (breaker (createCompletion cfg' stored fetch now1 now2 req cb)) = cooldownMs cb
   \<and> maxFailures (breaker (createChatCompletion cfg' stored fetch parse now1 now2 creq token cb))
       = maxFailures cb
   \<and> cooldownMs (breaker (createChatCompletion cfg' stored fetch parse now1 now2 creq token cb))
       = cooldownMs cb"
proof -
  have init: "maxFailures (new_circuitBreaker cfg) = 5" "cooldownMs (new_circuitBreaker cfg) = 60000"
    by (simp_all add: new_circuitBreaker_def)
  have run: "maxFailures (run_steps ss (new_circuitBreaker cfg)) = 5"
            "cooldownMs (run_steps ss (new_circuitBreaker cfg)) = 60000"
    using run_steps_constants [of ss "new_circuitBreaker cfg"] init by simp_all
  have tc: "breaker (testConnection cfg' stored fetch cb) = cb"
    by (rule testConnection_breaker)
  have cc: "maxFailures (breaker (createCompletion cfg' stored fetch now1 now2 req cb)) = maxFailures cb"
           "cooldownMs (breaker (createCompletion cfg' stored fetch now1 now2 req cb)) = cooldownMs cb"
    using createCompletion_breaker [of cfg' stored fetch now1 now2 req cb]
    by (elim disjE exE; simp only: apply_step_constants)+
  have ch: "maxFailures (breaker (createChatCompletion cfg' stored fetch parse now1 now2 creq token cb))
              = maxFailures cb"
           "cooldownMs (breaker (createChatCompletion cfg' stored fetch parse now1 now2 creq token cb))
              = cooldownMs cb"
    using createChatCompletion_breaker [of cfg' stored fetch parse now1 now2 creq token cb]
    by (elim disjE exE; simp only: apply_step_constants)+
  show ?thesis using init run tc cc ch by simp
qed

theorem circuit_breaker_constants_fixed_witness:
  "maxFailures (new_circuitBreaker example_cfg) = 5 \<and> cooldownMs (new_circuitBreaker example_cfg) = 60000
   \<and> maxFailures (run_steps [ReportFailure 500 1, ReportSuccess, ReportFailure 429 2]
         (new_circuitBreaker example_cfg)) = 5
   \<and> cooldownMs (run_steps [ReportFailure 500 1, ReportSuccess, ReportFailure 429 2]
         (new_circuitBreaker example_cfg)) = 60000
   \<and> maxFailures (breaker (createCompletion example_cfg (Some ''sk-1'') (\<lambda>rq. Responded response_500)
         70000 70001 example_request tripped_breaker)) = 5
   \<and> cooldownMs (breaker (createCompletion example_cfg (Some ''sk-1'') (\<lambda>rq. Responded response_500)
         70000 70001 example_request tripped_breaker)) = 60000"
  using circuit_breaker_constants_fixed [of example_cfg
      "[ReportFailure 500 1, ReportSuccess, ReportFailure 429 2]" example_cfg "Some ''sk-1''"
      "\<lambda>rq. Responded response_500" tripped_breaker 70000 70001 example_request "\<lambda>s. None"
      example_chat_request None]
  by (simp add: tripped_breaker_eq)

lemma testConnection_sent:
  "getApiKey stored = Inr apiKey \<Longrightarrow>
   sent (testConnection cfg stored fetch cb) =
     [\<lparr> req_method = ''GET'', req_url = api_baseUrl cfg @ ''/models'',
        req_headers = [(''Authorization'', ''Bearer '' @ apiKey)], req_body = None \<rparr>]"
  by (simp add: testConnection_def Let_def split: sum.splits fetch_result.splits)

lemma testConnection_warnings: "warnings (testConnection cfg stored fetch cb) = []"
  by (simp add: testConnection_def Let_def split: sum.splits fetch_result.splits)

text \<open>
  C9: \<^verbatim>\<open>testConnection\<close> neither consults the breaker nor reports to it.  With a usable key it
  sends its \<^verbatim>\<open>GET {baseUrl}/models\<close> request also at a time at which the breaker is open (where
  \<^verbatim>\<open>checkCircuitBreaker\<close> throws), and whatever the network answers, the breaker afterwards is
  the breaker before: the failure counter and \<^verbatim>\<open>cooldownUntil\<close> are unchanged and no warning is
  shown.
\<close>

theorem testConnection_bypasses_breaker:
  "(getApiKey stored = Inr apiKey \<and> now < cooldownUntil cb \<longrightarrow>
      checkCircuitBreaker now cb = Some CircuitOpenError
      \<and> sent (testConnection cfg stored fetch cb) =
          [\<lparr> req_method = ''GET'', req_url = api_baseUrl cfg @ ''/models'',
             req_headers = [(''Authorization'', ''Bearer '' @ apiKey)], req_body = None \<rparr>])
   \<and> breaker (testConnection cfg stored fetch cb) = cb
   \<and> failures (breaker (testConnection cfg stored fetch cb)) = failures cb
   \<and> cooldownUntil (breaker (testConnection cfg stored fetch cb)) = cooldownUntil cb
   \<and> warnings (testConnection cfg stored fetch cb) = []"
  by (simp add: testConnection_breaker testConnection_sent testConnection_warnings
        checkCircuitBreaker_def)

theorem testConnection_bypasses_breaker_witness:
  "getApiKey (Some ''sk-1'') = Inr ''sk-1'' \<and> (2000::int) < cooldownUntil tripped_breaker
   \<and> checkCircuitBreaker 2000 tripped_breaker = Some CircuitOpenError
   \<and> sent (testConnection example_cfg (Some ''sk-1'') (\<lambda>rq. Responded response_500) tripped_breaker) =
          [\<lparr> req_method = ''GET'', req_url = ''https://api.example.com/v1/models'',
             req_headers = [(''Authorization'', ''Bearer sk-1'')], req_body = None \<rparr>]
   \<and> result (testConnection example_cfg (Some ''sk-1'') (\<lambda>rq. Responded response_500) tripped_breaker)
       = Inl (new_Error ''HTTP 500: Internal Server Error'')
   \<and> breaker (testConnection example_cfg (Some ''sk-1'') (\<lambda>rq. Responded response_500) tripped_breaker) = tripped_breaker"
  using testConnection_bypasses_breaker [of "Some ''sk-1''" "''sk-1''" 2000 tripped_breaker example_cfg "\<lambda>rq. Responded response_500"]
  by (simp add: getApiKey_def tripped_breaker_eq example_cfg_def testConnection_def response_500_def ok_def
        show_int_def show_nat.simps Let_def)

lemma handleFailure_not_qualifying:
  "\<not> qualifying st \<Longrightarrow> handleFailure st now cb = (cb, [])"
  by (simp add: handleFailure_def qualifying_def)

lemma handleFailure_qualifying:
  "qualifying st \<Longrightarrow>
   failures (fst (handleFailure st now cb)) = failures cb + 1
   \<and> cooldownUntil (fst (handleFailure st now cb)) =
       (if failures cb + 1 \<ge> maxFailures cb then now + cooldownMs cb else cooldownUntil cb)"
  by (simp add: handleFailure_def qualifying_def Let_def)

lemma run_failures_snoc:
  "run_failures (fs @ [(st, now)]) cb = fst (handleFailure st now (run_failures fs cb))"
  by (induction fs arbitrary: cb) auto

lemma run_failures_constants:
  "maxFailures (run_failures fs cb) = maxFailures cb \<and> cooldownMs (run_failures fs cb) = cooldownMs cb"
  by (induction fs arbitrary: cb) (auto simp: handleFailure_constants)

lemma run_failures_count:
  "failures (run_failures fs cb) = failures cb + int (length (qualifying_failures fs))"
proof (induction fs arbitrary: cb)
  case Nil
  then show ?case by (simp add: qualifying_failures_def)
next
  case (Cons f fs)
  obtain st now where f: "f = (st, now)" by (cases f)
  show ?case
  proof (cases "qualifying st")
    case True
    then show ?thesis
      using Cons.IH [of "fst (handleFailure st now cb)"] handleFailure_qualifying [of st now cb]
      by (simp add: f qualifying_failures_def)
  next
    case False
    then show ?thesis
      using Cons.IH [of cb] by (simp add: f qualifying_failures_def handleFailure_not_qualifying)
  qed
qed

lemma run_failures_cooldown:
  "qualifying_failures fs \<noteq> [] \<Longrightarrow>
   failures cb + int (length (qualifying_failures fs)) \<ge> maxFailures cb \<Longrightarrow>
   cooldownUntil (run_failures fs cb) = snd (last (qualifying_failures fs)) + cooldownMs cb"
proof (induction fs rule: rev_induct)
  case Nil
  then show ?case by (simp add: qualifying_failures_def)
next
  case (snoc f fs)
  obtain st now where f: "f = (st, now)" by (cases f)
  show ?case
  proof (cases "qualifying st")
    case True
    have q: "qualifying_failures (fs @ [f]) = qualifying_failures fs @ [(st, now)]"
      using True by (simp add: qualifying_failures_def f)
    have "failures (run_failures fs cb) + 1 \<ge> maxFailures (run_failures fs cb)"
      using snoc.prems(2) by (simp add: q run_failures_count run_failures_constants)
    then show ?thesis
      using handleFailure_qualifying [OF True, of now "run_failures fs cb"]
      by (simp add: f run_failures_snoc run_failures_constants
            q [unfolded f])
  next
    case False
    have q: "qualifying_failures (fs @ [f]) = qualifying_failures fs"
      using False by (simp add: qualifying_failures_def f)
    show ?thesis
      using snoc.IH snoc.prems False
      by (simp add: q f run_failures_snoc handleFailure_not_qualifying q [unfolded f])
  qed
qed

lemma createCompletion_open:
  "now1 < cooldownUntil cb \<Longrightarrow>
   createCompletion cfg stored fetch now1 now2 req cb =
     \<lparr> result = Inl CircuitOpenError, breaker = cb, sent = [], warnings = [] \<rparr>"
  by (simp add: createCompletion_def checkCircuitBreaker_def)

lemma createChatCompletion_open:
  "now1 < cooldownUntil cb \<Longrightarrow>
   createChatCompletion cfg stored fetch parse now1 now2 creq token cb =
     \<lparr> result = Inl CircuitOpenError, breaker = cb, sent = [], warnings = [] \<rparr>"
  by (simp add: createChatCompletion_def checkCircuitBreaker_def)

lemma createCompletion_success:
  "\<not> now1 < cooldownUntil cb \<Longrightarrow> getApiKey stored = Inr k \<Longrightarrow> ok r \<Longrightarrow>
   breaker (createCompletion cfg stored (\<lambda>rq. Responded r) now1 now2 req cb) = cb\<lparr> failures := 0 \<rparr>"
  by (simp add: createCompletion_def checkCircuitBreaker_def Let_def split: sum.splits)

lemma createChatCompletion_success:
  "\<not> now1 < cooldownUntil cb \<Longrightarrow> getApiKey stored = Inr k \<Longrightarrow> ok r \<Longrightarrow>
   breaker (createChatCompletion cfg stored (\<lambda>rq. Responded r) parse now1 now2 creq token cb)
     = cb\<lparr> failures := 0 \<rparr>"
  by (simp add: createChatCompletion_def checkCircuitBreaker_def Let_def split: sum.splits prod.splits)

text \<open>
  C1: start from a fresh (closed) breaker and report failures through \<^verbatim>\<open>handleFailure\<close>, exactly
  \<^verbatim>\<open>maxFailures\<close> of them qualifying (status at least 500, or 429).  Then the counter stands at
  \<^verbatim>\<open>maxFailures\<close>, \<^verbatim>\<open>cooldownUntil\<close> is the time of the last qualifying failure plus the cooldown,
  and at every time before \<^verbatim>\<open>cooldownUntil\<close> both \<^verbatim>\<open>createCompletion\<close> and \<^verbatim>\<open>createChatCompletion\<close>
  fail with the cooling-down error, send nothing to the network and leave the breaker as it is
  (so the next call meets the same state).  And from a breaker whose counter is below
  \<^verbatim>\<open>maxFailures\<close>, a call that gets a successful response leaves the counter at 0.
\<close>

theorem circuit_breaker_trips_and_resets:
  "(int (length (qualifying_failures fs)) = maxFailures (new_circuitBreaker cfg0)
      \<and> cb = run_failures fs (new_circuitBreaker cfg0) \<and> now1 < cooldownUntil cb
    \<longrightarrow> failures cb = maxFailures cb
        \<and> cooldownUntil cb = snd (last (qualifying_failures fs)) + cooldownMs cb
        \<and> createCompletion cfg stored fetch now1 now2 req cb =
            \<lparr> result = Inl CircuitOpenError, breaker = cb, sent = [], warnings = [] \<rparr>
        \<and> createChatCompletion cfg stored fetch parse now1 now2 creq token cb =
            \<lparr> result = Inl CircuitOpenError, breaker = cb, sent = [], warnings = [] \<rparr>)
   \<and> (failures cb' < maxFailures cb' \<and> \<not> t1 < cooldownUntil cb' \<and> getApiKey stored' = Inr k \<and> ok r
    \<longrightarrow> failures (breaker (createCompletion cfg stored' (\<lambda>rq. Responded r) t1 t2 req cb')) = 0
        \<and> failures (breaker (createChatCompletion cfg stored' (\<lambda>rq. Responded r) parse t1 t2 creq
                                token cb')) = 0)"
proof (intro conjI impI)
  assume a: "int (length (qualifying_failures fs)) = maxFailures (new_circuitBreaker cfg0)
      \<and> cb = run_failures fs (new_circuitBreaker cfg0) \<and> now1 < cooldownUntil cb"
  then have n: "int (length (qualifying_failures fs)) = 5"
    and cb: "cb = run_failures fs (new_circuitBreaker cfg0)" and lt: "now1 < cooldownUntil cb"
    by (auto simp: new_circuitBreaker_def)
  have ne: "qualifying_failures fs \<noteq> []" using n by auto
  show "failures cb = maxFailures cb"
    using n by (simp add: cb run_failures_count run_failures_constants new_circuitBreaker_def)
  show "cooldownUntil cb = snd (last (qualifying_failures fs)) + cooldownMs cb"
    using run_failures_cooldown [OF ne, of "new_circuitBreaker cfg0"] n
    by (simp add: cb run_failures_constants new_circuitBreaker_def)
  show "createCompletion cfg stored fetch now1 now2 req cb =
            \<lparr> result = Inl CircuitOpenError, breaker = cb, sent = [], warnings = [] \<rparr>"
    using lt by (rule createCompletion_open)
  show "createChatCompletion cfg stored fetch parse now1 now2 creq token cb =
            \<lparr> result = Inl CircuitOpenError, breaker = cb, sent = [], warnings = [] \<rparr>"
    using lt by (rule createChatCompletion_open)
next
  assume b: "failures cb' < maxFailures cb' \<and> \<not> t1 < cooldownUntil cb' \<and> getApiKey stored' = Inr k \<and> ok r"
  show "failures (breaker (createCompletion cfg stored' (\<lambda>rq. Responded r) t1 t2 req cb')) = 0"
    using b createCompletion_success [of t1 cb' stored' k r cfg t2 req] by simp
  show "failures (breaker (createChatCompletion cfg stored' (\<lambda>rq. Responded r) parse t1 t2 creq
                                token cb')) = 0"
    using b createChatCompletion_success [of t1 cb' stored' k r cfg parse t2 creq token] by simp
qed

theorem circuit_breaker_trips_and_resets_witness:
  "int (length (qualifying_failures example_failures)) = maxFailures (new_circuitBreaker example_cfg)
   \<and> (64999::int) < cooldownUntil tripped_breaker
   \<and> cooldownUntil tripped_breaker = 5000 + 60000
   \<and> createCompletion example_cfg (Some ''sk-1'') (\<lambda>rq. Responded response_200) 64999 64999
        example_request tripped_breaker
      = \<lparr> result = Inl CircuitOpenError, breaker = tripped_breaker, sent = [], warnings = [] \<rparr>
   \<and> createChatCompletion example_cfg (Some ''sk-1'') (\<lambda>rq. Responded response_200) (\<lambda>s. None)
        64999 64999 example_chat_request None tripped_breaker
      = \<lparr> result = Inl CircuitOpenError, breaker = tripped_breaker, sent = [], warnings = [] \<rparr>
   \<and> failures warm_breaker = 2
   \<and> failures (breaker (createCompletion example_cfg (Some ''sk-1'') (\<lambda>rq. Responded response_200) 3 3
        example_request warm_breaker)) = 0
   \<and> failures (breaker (createChatCompletion example_cfg (Some ''sk-1'') (\<lambda>rq. Responded response_200)
        (\<lambda>s. None) 3 3 example_chat_request None
        warm_breaker)) = 0"
proof -
  have q: "int (length (qualifying_failures example_failures)) = maxFailures (new_circuitBreaker example_cfg)"
    by (simp add: qualifying_failures_def example_failures_def qualifying_def new_circuitBreaker_def)
  have l: "snd (last (qualifying_failures example_failures)) = 5000"
    by (simp add: qualifying_failures_def example_failures_def qualifying_def)
  have lt: "(64999::int) < cooldownUntil tripped_breaker"
    by (simp add: tripped_breaker_eq)
  have two: "warm_breaker
      = \<lparr> failures = 2, cooldownUntil = 0, maxFailures = 5, cooldownMs = 60000 \<rparr>"
    by (simp add: warm_breaker_def new_circuitBreaker_def handleFailure_def)
  have k: "getApiKey (Some ''sk-1'') = Inr ''sk-1''" by (simp add: getApiKey_def)
  have okr: "ok response_200" by (simp add: ok_def response_200_def)
  note T = circuit_breaker_trips_and_resets [of example_failures example_cfg tripped_breaker 64999
        example_cfg "Some ''sk-1''" "\<lambda>rq. Responded response_200" 64999 example_request "\<lambda>s. None"
        example_chat_request None warm_breaker 3 "Some ''sk-1''" "''sk-1''" response_200 3]
  have P1: "int (length (qualifying_failures example_failures)) = maxFailures (new_circuitBreaker example_cfg)
      \<and> tripped_breaker = run_failures example_failures (new_circuitBreaker example_cfg)
      \<and> 64999 < cooldownUntil tripped_breaker"
    using q lt by (simp add: tripped_breaker_def)
  have P2: "failures warm_breaker < maxFailures warm_breaker \<and> \<not> 3 < cooldownUntil warm_breaker
      \<and> getApiKey (Some ''sk-1'') = Inr ''sk-1'' \<and> ok response_200"
    using k okr by (simp add: two)
  have C1: "createCompletion example_cfg (Some ''sk-1'') (\<lambda>rq. Responded response_200) 64999 64999
        example_request tripped_breaker
      = \<lparr> result = Inl CircuitOpenError, breaker = tripped_breaker, sent = [], warnings = [] \<rparr>
   \<and> createChatCompletion example_cfg (Some ''sk-1'') (\<lambda>rq. Responded response_200) (\<lambda>s. None)
        64999 64999 example_chat_request None tripped_breaker
      = \<lparr> result = Inl CircuitOpenError, breaker = tripped_breaker, sent = [], warnings = [] \<rparr>"
    using T P1 by blast
  have C2: "failures (breaker (createCompletion example_cfg (Some ''sk-1'') (\<lambda>rq. Responded response_200) 3 3
        example_request warm_breaker)) = 0
   \<and> failures (breaker (createChatCompletion example_cfg (Some ''sk-1'') (\<lambda>rq. Responded response_200)
        (\<lambda>s. None) 3 3 example_chat_request None warm_breaker)) = 0"
    using T P2 by blast
  have cu: "cooldownUntil tripped_breaker = 5000 + 60000" by (simp add: tripped_breaker_eq)
  have f2: "failures warm_breaker = 2" by (simp add: two)
  show ?thesis using q lt cu C1 C2 f2 by blast
qed

lemma apply_step_cooldown:
  "cooldownUntil (apply_step s cb) = cooldownUntil cb
   \<or> (\<exists>st now. s = ReportFailure st now \<and> cooldownUntil (apply_step s cb) = now + cooldownMs cb)"
  by (cases s) (auto simp: handleFailure_def Let_def)

lemma run_steps_cooldown_bound:
  "sorted (step_times ss @ [t]) \<Longrightarrow>
   \<forall>u \<in> set (step_times ss @ [t]). cooldownUntil cb \<le> u + cooldownMs cb \<Longrightarrow>
   cooldownUntil (run_steps ss cb) \<le> t + cooldownMs cb"
proof (induction ss arbitrary: cb)
  case Nil
  then show ?case by simp
next
  case (Cons s ss)
  show ?case
  proof (cases s)
    case (ReportFailure st now)
    have srt: "sorted (step_times ss @ [t])" and le: "\<forall>u \<in> set (step_times ss @ [t]). now \<le> u"
      using Cons.prems(1) by (simp_all add: ReportFailure)
    have bound: "\<forall>u \<in> set (step_times ss @ [t]).
        cooldownUntil (apply_step s cb) \<le> u + cooldownMs (apply_step s cb)"
    proof
      fix u assume u: "u \<in> set (step_times ss @ [t])"
      from apply_step_cooldown [of s cb] show
        "cooldownUntil (apply_step s cb) \<le> u + cooldownMs (apply_step s cb)"
      proof
        assume "cooldownUntil (apply_step s cb) = cooldownUntil cb"
        then show ?thesis using Cons.prems(2) u by (auto simp: ReportFailure handleFailure_constants)
      next
        assume "\<exists>st now. s = ReportFailure st now \<and> cooldownUntil (apply_step s cb) = now + cooldownMs cb"
        then have "cooldownUntil (apply_step s cb) = now + cooldownMs cb"
          by (simp add: ReportFailure)
        then show ?thesis using le u by (auto simp: ReportFailure handleFailure_constants)
      qed
    qed
    have "cooldownUntil (run_steps ss (apply_step s cb)) \<le> t + cooldownMs (apply_step s cb)"
      by (rule Cons.IH [OF srt bound])
    then show ?thesis by (simp add: ReportFailure handleFailure_constants)
  next
    case ReportSuccess
    then show ?thesis using Cons.IH [of "cb\<lparr>failures := 0\<rparr>"] Cons.prems by simp
  qed
qed

lemma reachable_cooldown_bound:
  assumes "sorted (0 # step_times ss @ [t])"
  shows "cooldownUntil (run_steps ss (new_circuitBreaker cfg0)) \<le> t + 60000"
proof -
  have s: "sorted (step_times ss @ [t])" and nn: "\<forall>u \<in> set (step_times ss @ [t]). 0 \<le> u"
    using assms by simp_all
  have "\<forall>u \<in> set (step_times ss @ [t]).
      cooldownUntil (new_circuitBreaker cfg0) \<le> u + cooldownMs (new_circuitBreaker cfg0)"
    using nn by (simp add: new_circuitBreaker_def)
  from run_steps_cooldown_bound [OF s this] show ?thesis
    by (simp add: new_circuitBreaker_def)
qed

lemma step_monotone:
  "cooldownUntil cb \<le> now + cooldownMs cb \<Longrightarrow> cooldownUntil cb \<le> cooldownUntil (apply_step (ReportFailure st now) cb)"
  by (simp add: handleFailure_def Let_def)

text \<open>
  C7, as amended.  The claim says that a successful response resets \<^verbatim>\<open>cooldownUntil\<close> to 0; the
  code only resets the failure counter, and \<^verbatim>\<open>cooldownUntil\<close> is written by \<^verbatim>\<open>handleFailure\<close>
  alone.  What holds: take any breaker reached from a fresh one by breaker steps whose clock
  readings start at 0 or later and never go backwards.  Then a further failure report, a
  success, and each of the three client operations (at a clock reading not before the earlier
  ones) leave \<^verbatim>\<open>cooldownUntil\<close> at least as large as it was; and a successful response leaves it
  exactly as it was.
\<close>

theorem cooldownUntil_never_decreases:
  "(sorted (0 # step_times ss @ [now2]) \<and> cb = run_steps ss (new_circuitBreaker cfg0)
    \<longrightarrow> cooldownUntil cb \<le> cooldownUntil (apply_step (ReportFailure st now2) cb)
        \<and> cooldownUntil (apply_step ReportSuccess cb) = cooldownUntil cb
        \<and> cooldownUntil cb \<le> cooldownUntil (breaker (testConnection cfg stored fetch cb))
        \<and> cooldownUntil cb \<le> cooldownUntil (breaker (createCompletion cfg stored fetch now1 now2 req cb))
        \<and> cooldownUntil cb
            \<le> cooldownUntil (breaker (createChatCompletion cfg stored fetch parse now1 now2 creq token cb)))
   \<and> (\<not> now1 < cooldownUntil cb' \<and> getApiKey stored = Inr k \<and> ok r
    \<longrightarrow> cooldownUntil (breaker (createCompletion cfg stored (\<lambda>rq. Responded r) now1 now2 req cb'))
          = cooldownUntil cb'
        \<and> cooldownUntil (breaker (createChatCompletion cfg stored (\<lambda>rq. Responded r) parse now1 now2
             creq token cb')) = cooldownUntil cb')"
proof (intro conjI impI)
  assume a: "sorted (0 # step_times ss @ [now2]) \<and> cb = run_steps ss (new_circuitBreaker cfg0)"
  then have b: "cooldownUntil cb \<le> now2 + cooldownMs cb"
    using reachable_cooldown_bound [of ss now2 cfg0] run_steps_constants [of ss "new_circuitBreaker cfg0"]
    by (simp add: new_circuitBreaker_def)
  have f: "\<And>st. cooldownUntil cb \<le> cooldownUntil (apply_step (ReportFailure st now2) cb)"
    using b by (rule step_monotone)
  show "cooldownUntil cb \<le> cooldownUntil (apply_step (ReportFailure st now2) cb)" by (rule f)
  show "cooldownUntil (apply_step ReportSuccess cb) = cooldownUntil cb" by simp
  show "cooldownUntil cb \<le> cooldownUntil (breaker (testConnection cfg stored fetch cb))"
    by (simp add: testConnection_breaker)
  show "cooldownUntil cb \<le> cooldownUntil (breaker (createCompletion cfg stored fetch now1 now2 req cb))"
    using createCompletion_breaker [of cfg stored fetch now1 now2 req cb] f
    by (elim disjE exE) simp_all
  show "cooldownUntil cb
            \<le> cooldownUntil (breaker (createChatCompletion cfg stored fetch parse now1 now2 creq token cb))"
    using createChatCompletion_breaker [of cfg stored fetch parse now1 now2 creq token cb] f
    by (elim disjE exE) simp_all
next
  assume c: "\<not> now1 < cooldownUntil cb' \<and> getApiKey stored = Inr k \<and> ok r"
  show "cooldownUntil (breaker (createCompletion cfg stored (\<lambda>rq. Responded r) now1 now2 req cb'))
          = cooldownUntil cb'"
    using c createCompletion_success [of now1 cb' stored k r cfg now2 req] by simp
  show "cooldownUntil (breaker (createChatCompletion cfg stored (\<lambda>rq. Responded r) parse now1 now2
             creq token cb')) = cooldownUntil cb'"
    using c createChatCompletion_success [of now1 cb' stored k r cfg parse now2 creq token] by simp
qed


lemma example_steps_run:
  "run_steps example_steps (new_circuitBreaker example_cfg) = tripped_breaker"
  by (simp add: example_steps_def tripped_breaker_def example_failures_def)

lemma network_200_eq: "network_200 = (\<lambda>rq. Responded response_200)"
  by (rule ext) (simp add: network_200_def)

theorem cooldownUntil_never_decreases_witness:
  "sorted (0 # step_times example_steps @ [70001])
   \<and> cooldownUntil tripped_breaker = 65000
   \<and> cooldownUntil tripped_breaker
       \<le> cooldownUntil (breaker (createCompletion example_cfg (Some ''sk-1'') network_500 70000 70001
             example_request tripped_breaker))
   \<and> cooldownUntil (breaker (createCompletion example_cfg (Some ''sk-1'') network_500 70000 70001
             example_request tripped_breaker)) = 130001
   \<and> cooldownUntil (breaker (createCompletion example_cfg (Some ''sk-1'') network_200 70000 70001
             example_request tripped_breaker)) = cooldownUntil tripped_breaker"
proof -
  have srt: "sorted (0 # step_times example_steps @ [70001])"
    by (simp add: example_steps_def)
  have k: "getApiKey (Some ''sk-1'') = Inr ''sk-1''" by (simp add: getApiKey_def)
  have okr: "ok response_200" by (simp add: ok_def response_200_def)
  have nlt: "\<not> (70000::int) < cooldownUntil tripped_breaker" by (simp add: tripped_breaker_eq)
  note T = cooldownUntil_never_decreases [of example_steps 70001 tripped_breaker example_cfg 500
      example_cfg "Some ''sk-1''" network_500 70000 example_request "\<lambda>s. None" example_chat_request
      None tripped_breaker "''sk-1''" response_200]
  have A: "cooldownUntil tripped_breaker
       \<le> cooldownUntil (breaker (createCompletion example_cfg (Some ''sk-1'') network_500 70000 70001
             example_request tripped_breaker))"
    using T srt example_steps_run by simp
  have B: "cooldownUntil (breaker (createCompletion example_cfg (Some ''sk-1'') network_200 70000 70001
             example_request tripped_breaker)) = cooldownUntil tripped_breaker"
    using T nlt k okr by (simp add: network_200_eq)
  have C: "cooldownUntil (breaker (createCompletion example_cfg (Some ''sk-1'') network_500 70000 70001
             example_request tripped_breaker)) = 130001"
    by (simp add: createCompletion_def checkCircuitBreaker_def getApiKey_def network_500_def
          response_500_def ok_def handleFailure_def tripped_breaker_eq Let_def)
  show ?thesis using srt A B C by (simp add: tripped_breaker_eq)
qed

text \<open>
  The claim of C7 as stated fails.  The breaker tripped at time 5000 is open until 65000; a call
  at 65000 that gets a successful response clears the failure counter and leaves
  \<^verbatim>\<open>cooldownUntil\<close> at 65000, not at 0.  And the order on \<^verbatim>\<open>cooldownUntil\<close> rests on the clock: a
  failure reported at a reading of 1000, earlier than the one before, moves it back to 61000.
\<close>

theorem cooldownUntil_reset_counterexample:
  "result (createCompletion example_cfg (Some ''sk-1'') network_200 65000 65000 example_request
             tripped_breaker) = Inr (JObj [(''choices'', JArr [JObj [(''text'', JStr ''1'')]])])
   \<and> failures (breaker (createCompletion example_cfg (Some ''sk-1'') network_200 65000 65000
             example_request tripped_breaker)) = 0
   \<and> cooldownUntil tripped_breaker = 65000
   \<and> cooldownUntil (breaker (createCompletion example_cfg (Some ''sk-1'') network_200 65000 65000
             example_request tripped_breaker)) = 65000
   \<and> cooldownUntil (breaker (createCompletion example_cfg (Some ''sk-1'') network_200 65000 65000
             example_request tripped_breaker)) \<noteq> 0
   \<and> cooldownUntil (apply_step (ReportFailure 500 1000) tripped_breaker) = 61000
   \<and> cooldownUntil (apply_step (ReportFailure 500 1000) tripped_breaker) < cooldownUntil tripped_breaker"
  by (simp add: createCompletion_def checkCircuitBreaker_def getApiKey_def network_200_def
        response_200_def ok_def handleFailure_def tripped_breaker_eq Let_def)

section \<open>Credentials and request headers\<close>

lemma no_key_testConnection:
  "stored = None \<or> stored = Some [] \<Longrightarrow>
   testConnection cfg stored fetch cb =
     \<lparr> result = Inl ConfigurationError, breaker = cb, sent = [], warnings = [] \<rparr>"
  by (auto simp: testConnection_def getApiKey_def)

lemma no_key_createCompletion:
  "stored = None \<or> stored = Some [] \<Longrightarrow>
   createCompletion cfg stored fetch now1 now2 req cb =
     \<lparr> result = Inl (if now1 < cooldownUntil cb then CircuitOpenError else ConfigurationError),
       breaker = cb, sent = [], warnings = [] \<rparr>"
  by (auto simp: createCompletion_def getApiKey_def checkCircuitBreaker_def)

lemma no_key_createChatCompletion:
  "stored = None \<or> stored = Some [] \<Longrightarrow>
   createChatCompletion cfg stored fetch parse now1 now2 creq token cb =
     \<lparr> result = Inl (if now1 < cooldownUntil cb then CircuitOpenError else ConfigurationError),
       breaker = cb, sent = [], warnings = [] \<rparr>"
  by (auto simp: createChatCompletion_def getApiKey_def checkCircuitBreaker_def)

lemma createCompletion_sent:
  "getApiKey stored = Inr k \<Longrightarrow> rq \<in> set (sent (createCompletion cfg stored fetch now1 now2 req cb)) \<Longrightarrow>
   req_headers rq = getHeaders k"
  unfolding createCompletion_def Let_def
  by (auto split: option.splits sum.splits fetch_result.splits prod.splits if_splits)

lemma createChatCompletion_sent:
  "getApiKey stored = Inr k \<Longrightarrow>
   rq \<in> set (sent (createChatCompletion cfg stored fetch parse now1 now2 creq token cb)) \<Longrightarrow>
   req_headers rq = getHeaders k"
  unfolding createChatCompletion_def Let_def
  by (auto split: option.splits sum.splits fetch_result.splits prod.splits if_splits)

lemma getHeaders_lookup:
  "map_of (getHeaders k) ''Authorization'' = Some (''Bearer '' @ k)"
  "map_of (getHeaders k) ''User-Agent'' = Some ''MyAICopilot/0.1.0''"
  by (simp_all add: getHeaders_def)

text \<open>
  C5, as amended.  When the credential store has no key (or an empty one), no operation sends a
  request: \<^verbatim>\<open>testConnection\<close> fails with the configuration error, and \<^verbatim>\<open>createCompletion\<close> and
  \<^verbatim>\<open>createChatCompletion\<close> fail with the configuration error unless the breaker is open, where
  they fail with the cooling-down error first.  When a key is present, every request of every
  operation carries \<^verbatim>\<open>Authorization: Bearer <key>\<close>, and every request of \<^verbatim>\<open>createCompletion\<close>
  and \<^verbatim>\<open>createChatCompletion\<close> carries the fixed \<^verbatim>\<open>User-Agent\<close>.
\<close>

theorem credential_checked_before_network:
  "(stored = None \<or> stored = Some [] \<longrightarrow>
      testConnection cfg stored fetch cb =
        \<lparr> result = Inl ConfigurationError, breaker = cb, sent = [], warnings = [] \<rparr>
      \<and> createCompletion cfg stored fetch now1 now2 req cb =
        \<lparr> result = Inl (if now1 < cooldownUntil cb then CircuitOpenError else ConfigurationError),
          breaker = cb, sent = [], warnings = [] \<rparr>
      \<and> createChatCompletion cfg stored fetch parse now1 now2 creq token cb =
        \<lparr> result = Inl (if now1 < cooldownUntil cb then CircuitOpenError else ConfigurationError),
          breaker = cb, sent = [], warnings = [] \<rparr>)
   \<and> (getApiKey stored = Inr k \<longrightarrow>
      (\<forall>rq \<in> set (sent (testConnection cfg stored fetch cb)).
          map_of (req_headers rq) ''Authorization'' = Some (''Bearer '' @ k))
      \<and> (\<forall>rq \<in> set (sent (createCompletion cfg stored fetch now1 now2 req cb)).
          map_of (req_headers rq) ''Authorization'' = Some (''Bearer '' @ k)
          \<and> map_of (req_headers rq) ''User-Agent'' = Some ''MyAICopilot/0.1.0'')
      \<and> (\<forall>rq \<in> set (sent (createChatCompletion cfg stored fetch parse now1 now2 creq token cb)).
          map_of (req_headers rq) ''Authorization'' = Some (''Bearer '' @ k)
          \<and> map_of (req_headers rq) ''User-Agent'' = Some ''MyAICopilot/0.1.0''))"
proof (intro conjI impI ballI)
  assume n: "stored = None \<or> stored = Some []"
  show "testConnection cfg stored fetch cb =
        \<lparr> result = Inl ConfigurationError, breaker = cb, sent = [], warnings = [] \<rparr>"
    using n by (rule no_key_testConnection)
  show "createCompletion cfg stored fetch now1 now2 req cb =
        \<lparr> result = Inl (if now1 < cooldownUntil cb then CircuitOpenError else ConfigurationError),
          breaker = cb, sent = [], warnings = [] \<rparr>"
    using n by (rule no_key_createCompletion)
  show "createChatCompletion cfg stored fetch parse now1 now2 creq token cb =
        \<lparr> result = Inl (if now1 < cooldownUntil cb then CircuitOpenError else ConfigurationError),
          breaker = cb, sent = [], warnings = [] \<rparr>"
    using n by (rule no_key_createChatCompletion)
next
  fix rq assume "getApiKey stored = Inr k" "rq \<in> set (sent (testConnection cfg stored fetch cb))"
  then show "map_of (req_headers rq) ''Authorization'' = Some (''Bearer '' @ k)"
    by (simp add: testConnection_sent)
next
  fix rq assume "getApiKey stored = Inr k" "rq \<in> set (sent (createCompletion cfg stored fetch now1 now2 req cb))"
  then have "req_headers rq = getHeaders k" by (rule createCompletion_sent)
  then show "map_of (req_headers rq) ''Authorization'' = Some (''Bearer '' @ k)"
    and "map_of (req_headers rq) ''User-Agent'' = Some ''MyAICopilot/0.1.0''"
    by (simp_all add: getHeaders_lookup)
next
  fix rq assume "getApiKey stored = Inr k"
    "rq \<in> set (sent (createChatCompletion cfg stored fetch parse now1 now2 creq token cb))"
  then have "req_headers rq = getHeaders k" by (rule createChatCompletion_sent)
  then show "map_of (req_headers rq) ''Authorization'' = Some (''Bearer '' @ k)"
    and "map_of (req_headers rq) ''User-Agent'' = Some ''MyAICopilot/0.1.0''"
    by (simp_all add: getHeaders_lookup)
qed


theorem credential_checked_before_network_witness:
  "testConnection example_cfg None network_200 tripped_breaker =
        \<lparr> result = Inl ConfigurationError, breaker = tripped_breaker, sent = [], warnings = [] \<rparr>
   \<and> createCompletion example_cfg None network_200 70000 70000 example_request tripped_breaker =
        \<lparr> result = Inl ConfigurationError, breaker = tripped_breaker, sent = [], warnings = [] \<rparr>
   \<and> createChatCompletion example_cfg None network_200 (\<lambda>s. None) 64999 64999 example_chat_request
        None tripped_breaker =
        \<lparr> result = Inl CircuitOpenError, breaker = tripped_breaker, sent = [], warnings = [] \<rparr>
   \<and> getApiKey (Some ''sk-1'') = Inr ''sk-1''
   \<and> length (sent (testConnection example_cfg (Some ''sk-1'') network_200 tripped_breaker)) = 1
   \<and> map_of (req_headers (hd (sent (testConnection example_cfg (Some ''sk-1'') network_200
         tripped_breaker)))) ''Authorization'' = Some ''Bearer sk-1''
   \<and> length (sent (createCompletion example_cfg (Some ''sk-1'') network_200 70000 70000
         example_request tripped_breaker)) = 1
   \<and> map_of (req_headers (hd (sent (createCompletion example_cfg (Some ''sk-1'') network_200 70000 70000
         example_request tripped_breaker)))) ''Authorization'' = Some ''Bearer sk-1''
   \<and> map_of (req_headers (hd (sent (createCompletion example_cfg (Some ''sk-1'') network_200 70000 70000
         example_request tripped_breaker)))) ''User-Agent'' = Some ''MyAICopilot/0.1.0''"
proof -
  note N1 = credential_checked_before_network [of None example_cfg network_200 tripped_breaker
      70000 70000 example_request "\<lambda>s. None" example_chat_request None "''sk-1''"]
  note N2 = credential_checked_before_network [of None example_cfg network_200 tripped_breaker
      64999 64999 example_request "\<lambda>s. None" example_chat_request None "''sk-1''"]
  note K = credential_checked_before_network [of "Some ''sk-1''" example_cfg network_200 tripped_breaker
      70000 70000 example_request "\<lambda>s. None" example_chat_request None "''sk-1''"]
  have k: "getApiKey (Some ''sk-1'') = Inr ''sk-1''" by (simp add: getApiKey_def)
  have t: "length (sent (testConnection example_cfg (Some ''sk-1'') network_200 tripped_breaker)) = 1"
    by (simp add: testConnection_sent [OF k])
  have c: "length (sent (createCompletion example_cfg (Some ''sk-1'') network_200 70000 70000
         example_request tripped_breaker)) = 1"
    by (simp add: createCompletion_def checkCircuitBreaker_def k network_200_def response_200_def
          ok_def tripped_breaker_eq Let_def)
  have ht: "hd (sent (testConnection example_cfg (Some ''sk-1'') network_200 tripped_breaker))
      \<in> set (sent (testConnection example_cfg (Some ''sk-1'') network_200 tripped_breaker))"
    using t by (intro hd_in_set) auto
  have hc: "hd (sent (createCompletion example_cfg (Some ''sk-1'') network_200 70000 70000
         example_request tripped_breaker))
      \<in> set (sent (createCompletion example_cfg (Some ''sk-1'') network_200 70000 70000
         example_request tripped_breaker))"
    using c by (intro hd_in_set) auto
  have A: "testConnection example_cfg None network_200 tripped_breaker =
        \<lparr> result = Inl ConfigurationError, breaker = tripped_breaker, sent = [], warnings = [] \<rparr>"
    and B: "createCompletion example_cfg None network_200 70000 70000 example_request tripped_breaker =
        \<lparr> result = Inl ConfigurationError, breaker = tripped_breaker, sent = [], warnings = [] \<rparr>"
    using N1 by (simp_all add: tripped_breaker_eq)
  have C: "createChatCompletion example_cfg None network_200 (\<lambda>s. None) 64999 64999 example_chat_request
        None tripped_breaker =
        \<lparr> result = Inl CircuitOpenError, breaker = tripped_breaker, sent = [], warnings = [] \<rparr>"
    using N2 by (simp add: tripped_breaker_eq)
  have D: "map_of (req_headers (hd (sent (testConnection example_cfg (Some ''sk-1'') network_200
         tripped_breaker)))) ''Authorization'' = Some ''Bearer sk-1''"
    using K k ht by auto
  have E: "map_of (req_headers (hd (sent (createCompletion example_cfg (Some ''sk-1'') network_200 70000 70000
         example_request tripped_breaker)))) ''Authorization'' = Some ''Bearer sk-1''
   \<and> map_of (req_headers (hd (sent (createCompletion example_cfg (Some ''sk-1'') network_200 70000 70000
         example_request tripped_breaker)))) ''User-Agent'' = Some ''MyAICopilot/0.1.0''"
    using K k hc by auto
  show ?thesis using A B C D E k t c by blast
qed

text \<open>
  The claim of C5 as stated fails at two places.  With no key and the breaker open,
  \<^verbatim>\<open>createCompletion\<close> fails with the cooling-down error, not with the configuration error
  (the breaker is consulted before the credential store).  And the request of
  \<^verbatim>\<open>testConnection\<close> has the \<^verbatim>\<open>Authorization\<close> header only: it builds its headers itself and does
  not go through \<^verbatim>\<open>getHeaders\<close>.
\<close>

theorem credential_claim_counterexample:
  "result (createCompletion example_cfg None network_200 64999 64999 example_request tripped_breaker)
     = Inl CircuitOpenError
   \<and> CircuitOpenError \<noteq> ConfigurationError
   \<and> sent (testConnection example_cfg (Some ''sk-1'') network_200 tripped_breaker)
     = [\<lparr> req_method = ''GET'', req_url = ''https://api.example.com/v1/models'',
          req_headers = [(''Authorization'', ''Bearer sk-1'')], req_body = None \<rparr>]
   \<and> map_of (req_headers (hd (sent (testConnection example_cfg (Some ''sk-1'') network_200
         tripped_breaker)))) ''User-Agent'' = None"
  by (simp add: createCompletion_def checkCircuitBreaker_def tripped_breaker_eq CircuitOpenError_def
        ConfigurationError_def new_Error_def testConnection_def getApiKey_def network_200_def
        response_200_def ok_def example_cfg_def Let_def)

section \<open>The TTL cache\<close>

lemma set_then_get:
  "0 \<le> ttlSeconds \<Longrightarrow>
   getCompletion P now key (setCompletion P now key v ttlSeconds ws)
     = (Some v, setCompletion P now key v ttlSeconds ws)"
  by (simp add: getCompletion_def setCompletion_def update_state_def)

lemma get_expired:
  "ws (P @ key) = Some e \<Longrightarrow> now > expiry e \<Longrightarrow>
   getCompletion P now key ws = (None, ws(P @ key := None))"
  by (simp add: getCompletion_def delete_entry_def update_state_def)

text \<open>
  C3, as amended.  For every key, value and time-to-live that is not negative, \<^verbatim>\<open>setCompletion\<close>
  followed by \<^verbatim>\<open>getCompletion\<close> at the same clock reading returns the value and leaves the store
  as it is.  For every stored entry, a \<^verbatim>\<open>getCompletion\<close> at a time after the entry's expiry
  returns nothing and removes the entry, and every other key of the store is as before.  The
  expiry of a written entry is the time of writing plus \<^verbatim>\<open>ttlSeconds * 1000\<close>, so a read after
  that time finds nothing.
\<close>

theorem cache_set_get_and_expiry:
  "(0 \<le> ttlSeconds \<longrightarrow>
      getCompletion P now key (setCompletion P now key v ttlSeconds ws)
        = (Some v, setCompletion P now key v ttlSeconds ws))
   \<and> (ws (P @ key) = Some e \<and> later > expiry e \<longrightarrow>
      fst (getCompletion P later key ws) = None
      \<and> snd (getCompletion P later key ws) (P @ key) = None
      \<and> (\<forall>k'. k' \<noteq> P @ key \<longrightarrow> snd (getCompletion P later key ws) k' = ws k'))
   \<and> (later > now + ttlSeconds * 1000 \<longrightarrow>
      getCompletion P later key (setCompletion P now key v ttlSeconds ws) = (None, ws(P @ key := None)))
   \<and> expiry (the (setCompletion P now key v ttlSeconds ws (P @ key))) = now + ttlSeconds * 1000"
proof (intro conjI impI allI)
  assume "0 \<le> ttlSeconds"
  then show "getCompletion P now key (setCompletion P now key v ttlSeconds ws)
        = (Some v, setCompletion P now key v ttlSeconds ws)"
    by (rule set_then_get)
next
  assume a: "ws (P @ key) = Some e \<and> later > expiry e"
  then have g: "getCompletion P later key ws = (None, ws(P @ key := None))"
    using get_expired [of ws P key e later] by simp
  show "fst (getCompletion P later key ws) = None" by (simp add: g)
  show "snd (getCompletion P later key ws) (P @ key) = None" by (simp add: g)
  fix k' assume "k' \<noteq> P @ key"
  then show "snd (getCompletion P later key ws) k' = ws k'" by (simp add: g)
next
  assume "later > now + ttlSeconds * 1000"
  then show "getCompletion P later key (setCompletion P now key v ttlSeconds ws) = (None, ws(P @ key := None))"
    by (simp add: getCompletion_def setCompletion_def update_state_def delete_entry_def)
next
  show "expiry (the (setCompletion P now key v ttlSeconds ws (P @ key))) = now + ttlSeconds * 1000"
    by (simp add: setCompletion_def update_state_def)
qed

theorem cache_set_get_and_expiry_witness:
  "getCompletion ''completion:'' 1000 ''k1'' (setCompletion ''completion:'' 1000 ''k1'' ''x + 1'' 300 Map.empty)
     = (Some ''x + 1'', setCompletion ''completion:'' 1000 ''k1'' ''x + 1'' 300 Map.empty)
   \<and> setCompletion ''completion:'' 1000 ''k1'' ''x + 1'' 300 Map.empty ''completion:k1''
       = Some \<lparr> item = ''x + 1'', expiry = 301000 \<rparr>
   \<and> fst (getCompletion ''completion:'' 301001 ''k1''
        (setCompletion ''completion:'' 1000 ''k1'' ''x + 1'' 300 Map.empty)) = None
   \<and> snd (getCompletion ''completion:'' 301001 ''k1''
        (setCompletion ''completion:'' 1000 ''k1'' ''x + 1'' 300 Map.empty)) ''completion:k1'' = None
   \<and> getCompletion ''completion:'' 301001 ''k1''
        (setCompletion ''completion:'' 1000 ''k1'' ''x + 1'' 300 Map.empty) = (None, Map.empty)
   \<and> fst (getCompletion ''completion:'' 301000 ''k1''
        (setCompletion ''completion:'' 1000 ''k1'' ''x + 1'' 300 Map.empty)) = Some ''x + 1''"
proof -
  let ?ws = "setCompletion ''completion:'' 1000 ''k1'' ''x + 1'' 300 (Map.empty :: string workspace_state)"
  have e: "?ws ''completion:k1'' = Some \<lparr> item = ''x + 1'', expiry = 301000 \<rparr>"
    by (simp add: setCompletion_def update_state_def)
  note A = cache_set_get_and_expiry [of 300 "''completion:''" 1000 "''k1''" "''x + 1''" Map.empty
      "\<lparr> item = ''x + 1'', expiry = 301000 \<rparr>" 301001]
  note B = cache_set_get_and_expiry [of 300 "''completion:''" 1000 "''k1''" "''x + 1''" ?ws
      "\<lparr> item = ''x + 1'', expiry = 301000 \<rparr>" 301001]
  have 1: "getCompletion ''completion:'' 1000 ''k1'' ?ws = (Some ''x + 1'', ?ws)"
    using A by simp
  have 2: "fst (getCompletion ''completion:'' 301001 ''k1'' ?ws) = None
     \<and> snd (getCompletion ''completion:'' 301001 ''k1'' ?ws) ''completion:k1'' = None"
    using B e by simp
  have 3: "getCompletion ''completion:'' 301001 ''k1'' ?ws = (None, Map.empty)"
    using A by simp
  have 4: "fst (getCompletion ''completion:'' 301000 ''k1'' ?ws) = Some ''x + 1''"
    by (simp add: getCompletion_def e)
  show ?thesis using 1 2 3 4 e by simp
qed

text \<open>
  The claim of C3 as stated, for every time-to-live, fails for a negative one: the entry is
  written with an expiry before the time of writing, and the read right after it finds it
  expired.
\<close>

theorem cache_negative_ttl_counterexample:
  "fst (getCompletion ''completion:'' 1000 ''k1''
          (setCompletion ''completion:'' 1000 ''k1'' ''x + 1'' (- 1) Map.empty)) = None
   \<and> fst (getCompletion ''completion:'' 1000 ''k1''
          (setCompletion ''completion:'' 1000 ''k1'' ''x + 1'' (- 1) Map.empty)) \<noteq> Some ''x + 1''"
  by (simp add: getCompletion_def setCompletion_def update_state_def)

section \<open>Merging abort signals\<close>

lemma abort_all_length: "length (abort_all cs h) = length h"
  by (induction cs h rule: abort_all.induct) simp_all

lemma abort_all_keeps_aborted:
  "i < length h \<Longrightarrow> aborted (h ! i) \<Longrightarrow> aborted (abort_all cs h ! i)"
proof (induction cs h rule: abort_all.induct)
  case (1 h)
  then show ?case by simp
next
  case (2 c cs h)
  show ?case
  proof (cases "c < length h \<and> \<not> aborted (h ! c)")
    case True
    have "aborted (h[c := (h ! c)\<lparr>aborted := True\<rparr>] ! i)"
      using "2.prems" by (cases "i = c") simp_all
    then show ?thesis using True "2.IH"(1) "2.prems" by simp
  next
    case False
    then show ?thesis using "2.IH"(2) "2.prems" by auto
  qed
qed

lemma abort_all_aborts:
  "c \<in> set cs \<Longrightarrow> c < length h \<Longrightarrow> aborted (abort_all cs h ! c)"
proof (induction cs h rule: abort_all.induct)
  case (1 h)
  then show ?case by simp
next
  case (2 d cs h)
  show ?case
  proof (cases "d < length h \<and> \<not> aborted (h ! d)")
    case True
    show ?thesis
    proof (cases "c = d")
      case c: True
      have "aborted (h[d := (h ! d)\<lparr>aborted := True\<rparr>] ! c)" using True c by simp
      then have "aborted (abort_all (listeners (h ! d) @ cs) (h[d := (h ! d)\<lparr>aborted := True\<rparr>]) ! c)"
        using "2.prems" by (intro abort_all_keeps_aborted) simp_all
      then show ?thesis using True by simp
    next
      case False
      then have "c \<in> set (listeners (h ! d) @ cs)" using "2.prems" by simp
      then show ?thesis using True "2.IH"(1) "2.prems" by simp
    qed
  next
    case False
    show ?thesis
    proof (cases "c = d")
      case c: True
      then have "aborted (h ! c)" using False "2.prems" by simp
      then have "aborted (abort_all cs h ! c)" using "2.prems" by (intro abort_all_keeps_aborted)
      then show ?thesis using False by auto
    next
      case c: False
      then show ?thesis using False "2.IH"(2) "2.prems" by auto
    qed
  qed
qed

lemma abort_already_aborted: "s < length h \<Longrightarrow> aborted (h ! s) \<Longrightarrow> abort s h = h"
  by (simp add: abort_def)

text \<open>Both inputs live at the time of merging: aborting either aborts the merged signal.\<close>

lemma mergeSignals_live_inputs:
  assumes "signal1 < length h" "signal2 < length h"
      and "\<not> aborted (h ! signal1)" "\<not> aborted (h ! signal2)"
      and "mergeSignals signal1 signal2 h = (m, h')"
  shows "\<not> aborted (h' ! m) \<and> aborted (abort signal1 h' ! m) \<and> aborted (abort signal2 h' ! m)"
proof -
  have m: "m = length h" and h': "h' = addEventListener signal2 (length h)
      (addEventListener signal1 (length h) (h @ [\<lparr> aborted = False, listeners = [] \<rparr>]))"
    using assms(5) by (auto simp: mergeSignals_def new_AbortController_def Let_def)
  have len: "length h' = Suc (length h)" by (simp add: h' addEventListener_def)
  have live: "\<not> aborted (h' ! m)"
    using assms(1,2) by (simp add: h' m addEventListener_def nth_list_update nth_append)
  have l1: "m \<in> set (listeners (h' ! signal1))" and a1: "\<not> aborted (h' ! signal1)"
    using assms(1,2,3) by (auto simp: h' m addEventListener_def nth_list_update nth_append)
  have l2: "m \<in> set (listeners (h' ! signal2))" and a2: "\<not> aborted (h' ! signal2)"
    using assms(1,2,4) by (auto simp: h' m addEventListener_def nth_list_update nth_append)
  have "aborted (abort_all (listeners (h' ! signal1) @ []) (h'[signal1 := (h' ! signal1)\<lparr>aborted := True\<rparr>]) ! m)"
    using l1 len by (intro abort_all_aborts) (simp_all add: m)
  then have f1: "aborted (abort signal1 h' ! m)"
    using a1 assms(1) len by (simp add: abort_def)
  have "aborted (abort_all (listeners (h' ! signal2) @ []) (h'[signal2 := (h' ! signal2)\<lparr>aborted := True\<rparr>]) ! m)"
    using l2 len by (intro abort_all_aborts) (simp_all add: m)
  then have f2: "aborted (abort signal2 h' ! m)"
    using a2 assms(2) len by (simp add: abort_def)
  show ?thesis using live f1 f2 by simp
qed

text \<open>An input that is already aborted at the time of merging never reaches the merged signal.\<close>

lemma mergeSignals_aborted_input:
  assumes "signal1 < length h" "signal2 < length h"
      and "\<not> aborted (h ! signal1)" "aborted (h ! signal2)"
      and "mergeSignals signal1 signal2 h = (m, h')"
  shows "\<not> aborted (h' ! m) \<and> abort signal2 h' = h'"
proof -
  have m: "m = length h" and h': "h' = addEventListener signal2 (length h)
      (addEventListener signal1 (length h) (h @ [\<lparr> aborted = False, listeners = [] \<rparr>]))"
    using assms(5) by (auto simp: mergeSignals_def new_AbortController_def Let_def)
  have len: "length h' = Suc (length h)" by (simp add: h' addEventListener_def)
  have live: "\<not> aborted (h' ! m)"
    using assms(1,2) by (simp add: h' m addEventListener_def nth_list_update nth_append)
  have a2: "aborted (h' ! signal2)"
    using assms(1,2,4) by (auto simp: h' m addEventListener_def nth_list_update nth_append)
  have "abort signal2 h' = h'" using a2 assms(2) len by (intro abort_already_aborted) simp_all
  then show ?thesis using live by simp
qed

text \<open>
  C4: the claim includes the case of an input that is already aborted when the signals are
  merged, and there the code does not abort the merged signal.  Here the caller's controller
  (number 0) was aborted before \<^verbatim>\<open>createCompletion\<close> reached the merge, for instance by a
  superseding request while the client waited for the credential store.  \<^verbatim>\<open>createCompletion\<close>
  makes its timeout controller (number 1) and the merged one (number 2): the signal handed
  to \<^verbatim>\<open>fetch\<close> is the merged one, it is not aborted, and aborting the caller's controller
  again changes nothing.
\<close>

theorem mergeSignals_misses_aborted_input:
  "completion_signal (Some 0) [\<lparr> aborted = True, listeners = [] \<rparr>]
     = (1, 2, [\<lparr> aborted = True, listeners = [2] \<rparr>, \<lparr> aborted = False, listeners = [2] \<rparr>,
               \<lparr> aborted = False, listeners = [] \<rparr>])
   \<and> \<not> aborted ((snd (snd (completion_signal (Some 0) [\<lparr> aborted = True, listeners = [] \<rparr>]))) ! 2)
   \<and> abort 0 (snd (snd (completion_signal (Some 0) [\<lparr> aborted = True, listeners = [] \<rparr>])))
       = snd (snd (completion_signal (Some 0) [\<lparr> aborted = True, listeners = [] \<rparr>]))"
proof -
  have c: "completion_signal (Some 0) [\<lparr> aborted = True, listeners = [] \<rparr>]
     = (1, 2, [\<lparr> aborted = True, listeners = [2] \<rparr>, \<lparr> aborted = False, listeners = [2] \<rparr>,
               \<lparr> aborted = False, listeners = [] \<rparr>])"
    by (simp add: completion_signal_def mergeSignals_def new_AbortController_def
          addEventListener_def Let_def)
  show ?thesis by (simp add: c abort_def)
qed

section \<open>Failures in the completion pipeline\<close>

lemma fetchCompletion_returns:
  "\<exists>items. returned (fetchCompletion cl P key now1 now2 ttl completion ws) = Inr items"
  by (simp add: fetchCompletion_def Let_def split: prod.splits option.splits sum.splits)

lemma fetchCompletion_failure:
  "fst (getCompletion P now1 key ws) = None \<Longrightarrow>
   fetchCompletion cl P key now1 now2 ttl (Inl err) ws =
     \<lparr> returned = Inr (fst (fetchCompletion_catch err)), logged = snd (fetchCompletion_catch err),
       cache_after = snd (getCompletion P now1 key ws), called_api = True \<rparr>"
  by (cases "getCompletion P now1 key ws")
     (simp add: fetchCompletion_def Let_def split: prod.splits)

lemma fetchCompletion_late_failure:
  "fst (getCompletion P now1 key ws) = None \<Longrightarrow> cleaned_suggestion cl c = Inl err \<Longrightarrow>
   fetchCompletion cl P key now1 now2 ttl (Inr c) ws =
     \<lparr> returned = Inr (fst (fetchCompletion_catch err)), logged = snd (fetchCompletion_catch err),
       cache_after = snd (getCompletion P now1 key ws), called_api = True \<rparr>"
  by (cases "getCompletion P now1 key ws")
     (simp add: fetchCompletion_def Let_def split: prod.splits)

lemma fetchCompletion_catch_empty: "fst (fetchCompletion_catch err) = []"
  by (simp add: fetchCompletion_catch_def split: js_throw.splits)

lemma rethrow_abort_is_cancelled:
  "rethrow (ErrorObj ''AbortError'' m) = new_Error ''Request timeout or cancelled''
   \<and> includes_str ''Request timeout or cancelled'' ''cancelled''"
  by (simp add: rethrow_def startsWith_def)

lemma rethrow_is_error: "e \<noteq> NonError \<Longrightarrow> rethrow e \<noteq> NonError"
  by (cases e) (simp_all add: rethrow_def new_Error_def)

text \<open>The failures after the client call are two type errors, and neither is a cancellation.\<close>

lemma cleaned_suggestion_failure:
  "cleaned_suggestion cl c = Inl err \<Longrightarrow>
   err = ErrorObj ''TypeError'' ''Cannot read properties of null (reading 'choices')''
   \<or> err = ErrorObj ''TypeError'' ''text.replace is not a function''"
  by (auto simp: cleaned_suggestion_def Let_def split: if_splits option.splits json.splits)

lemma type_errors_logged:
  "fetchCompletion_catch (ErrorObj ''TypeError'' ''Cannot read properties of null (reading 'choices')'')
     = ([], [LogError ''Completion failed:''
               (ErrorObj ''TypeError'' ''Cannot read properties of null (reading 'choices')'')])"
  "fetchCompletion_catch (ErrorObj ''TypeError'' ''text.replace is not a function'')
     = ([], [LogError ''Completion failed:'' (ErrorObj ''TypeError'' ''text.replace is not a function'')])"
  by (simp_all add: fetchCompletion_catch_def startsWith_def)

text \<open>
  When the platform rejects with \<^verbatim>\<open>Error\<close> objects only, so does \<^verbatim>\<open>createCompletion\<close>: what it
  throws itself is a \<^verbatim>\<open>new Error\<close>, and the rest is what it rethrows.
\<close>

lemma createCompletion_throws_errors:
  assumes "\<forall>rq. platform_answer (fetch rq)"
  shows "result (createCompletion cfg stored fetch t1 t2 req cb) \<noteq> Inl NonError"
proof -
  let ?rq = "\<lparr> req_method = ''POST'', req_url = api_baseUrl cfg @ ''/completions'',
                req_headers = getHeaders (projr (getApiKey stored)),
                req_body = Some (CompletionBody (api_model cfg) (prompt req) (maxTokens req)
                                   (temperature req) False) \<rparr>"
  have p: "platform_answer (fetch ?rq)" using assms by blast
  show ?thesis
  proof (cases "checkCircuitBreaker t1 cb")
    case (Some e)
    then show ?thesis
      by (auto simp: createCompletion_def checkCircuitBreaker_def CircuitOpenError_def new_Error_def
               split: if_splits)
  next
    case None
    show ?thesis
    proof (cases "getApiKey stored")
      case (Inl e)
      then have "e = ConfigurationError"
        by (auto simp: getApiKey_def split: option.splits if_splits)
      then show ?thesis
        using None Inl by (simp add: createCompletion_def ConfigurationError_def new_Error_def)
    next
      case (Inr k)
      show ?thesis
      proof (cases "fetch ?rq")
        case (Rejected e)
        then have "e \<noteq> NonError" using p by (simp add: platform_answer_def)
        then have "rethrow e \<noteq> NonError" by (rule rethrow_is_error)
        then show ?thesis
          using None Inr Rejected by (simp add: createCompletion_def Let_def)
      next
        case (Responded r)
        then have j: "resp_json r \<noteq> Inl NonError" using p by (simp add: platform_answer_def)
        have n: "\<And>m. rethrow (new_Error m) \<noteq> NonError"
          by (simp add: rethrow_def new_Error_def)
        show ?thesis
        proof (cases "ok r")
          case True
          show ?thesis
          proof (cases "resp_json r")
            case (Inl e)
            then have "rethrow e \<noteq> NonError" using j by (intro rethrow_is_error) simp
            then show ?thesis
              using None Inr Responded True Inl by (simp add: createCompletion_def Let_def)
          next
            case (Inr v)
            then show ?thesis
              using None \<open>getApiKey stored = Inr k\<close> Responded True
              by (simp add: createCompletion_def Let_def)
          qed
        next
          case False
          then show ?thesis
            using None Inr Responded n
            by (simp add: createCompletion_def Let_def split: prod.splits)
        qed
      qed
    qed
  qed
qed

text \<open>
  C6: \<^verbatim>\<open>fetchCompletion\<close> never lets a failure out: whatever the client call settles to, it
  returns a list.  The steps before the client call have no failing step, so a failure is
  either the failure of the client call or a failure while its answer is processed.  After a
  cache miss, every failure of the client call gives the empty list and leaves the cache as
  the read left it.  A cancellation (an error named \<^verbatim>\<open>AbortError\<close>, or one whose message
  contains \<^verbatim>\<open>cancelled\<close>, which is what \<^verbatim>\<open>createCompletion\<close> throws for an aborted request, also
  one aborted by a superseding request) is not logged.  Every other error is logged once with
  \<^verbatim>\<open>Completion failed:\<close> and gives the empty list, and so does every failure while the answer
  is processed.  The failures are \<^verbatim>\<open>Error\<close> objects: \<^verbatim>\<open>createCompletion\<close> throws nothing else
  when the platform does not.
\<close>

theorem fetchCompletion_swallows_failures:
  "(\<exists>items. returned (fetchCompletion cl P key now1 now2 ttl completion ws) = Inr items)
   \<and> (fst (getCompletion P now1 key ws) = None \<longrightarrow>
        returned (fetchCompletion cl P key now1 now2 ttl (Inl err) ws) = Inr []
        \<and> cache_after (fetchCompletion cl P key now1 now2 ttl (Inl err) ws)
            = snd (getCompletion P now1 key ws))
   \<and> (fst (getCompletion P now1 key ws) = None
        \<and> (name = ''AbortError'' \<or> includes_str msg ''cancelled'') \<longrightarrow>
        logged (fetchCompletion cl P key now1 now2 ttl (Inl (ErrorObj name msg)) ws) = [])
   \<and> (fst (getCompletion P now1 key ws) = None \<longrightarrow>
        logged (fetchCompletion cl P key now1 now2 ttl
                  (Inl (rethrow (ErrorObj ''AbortError'' m))) ws) = [])
   \<and> (fst (getCompletion P now1 key ws) = None
        \<and> name \<noteq> ''AbortError'' \<and> \<not> includes_str msg ''cancelled'' \<longrightarrow>
        logged (fetchCompletion cl P key now1 now2 ttl (Inl (ErrorObj name msg)) ws)
          = [LogError ''Completion failed:'' (ErrorObj name msg)])
   \<and> (fst (getCompletion P now1 key ws) = None \<and> cleaned_suggestion cl c = Inl late \<longrightarrow>
        returned (fetchCompletion cl P key now1 now2 ttl (Inr c) ws) = Inr []
        \<and> logged (fetchCompletion cl P key now1 now2 ttl (Inr c) ws)
            = [LogError ''Completion failed:'' late]
        \<and> cache_after (fetchCompletion cl P key now1 now2 ttl (Inr c) ws)
            = snd (getCompletion P now1 key ws))
   \<and> ((\<forall>rq. platform_answer (fetch rq)) \<longrightarrow>
        result (createCompletion cfg stored fetch t1 t2 req cb) \<noteq> Inl NonError)"
proof (intro conjI impI)
  show "\<exists>items. returned (fetchCompletion cl P key now1 now2 ttl completion ws) = Inr items"
    by (rule fetchCompletion_returns)
next
  assume "fst (getCompletion P now1 key ws) = None"
  then show "returned (fetchCompletion cl P key now1 now2 ttl (Inl err) ws) = Inr []"
    by (simp add: fetchCompletion_failure fetchCompletion_catch_empty)
next
  assume "fst (getCompletion P now1 key ws) = None"
  then show "cache_after (fetchCompletion cl P key now1 now2 ttl (Inl err) ws)
            = snd (getCompletion P now1 key ws)"
    by (simp add: fetchCompletion_failure)
next
  assume "fst (getCompletion P now1 key ws) = None
        \<and> (name = ''AbortError'' \<or> includes_str msg ''cancelled'')"
  then show "logged (fetchCompletion cl P key now1 now2 ttl (Inl (ErrorObj name msg)) ws) = []"
    by (auto simp: fetchCompletion_failure fetchCompletion_catch_def)
next
  assume "fst (getCompletion P now1 key ws) = None"
  then show "logged (fetchCompletion cl P key now1 now2 ttl
                  (Inl (rethrow (ErrorObj ''AbortError'' m))) ws) = []"
    using rethrow_abort_is_cancelled [of m]
    by (simp add: fetchCompletion_failure fetchCompletion_catch_def new_Error_def)
next
  assume "fst (getCompletion P now1 key ws) = None
        \<and> name \<noteq> ''AbortError'' \<and> \<not> includes_str msg ''cancelled''"
  then show "logged (fetchCompletion cl P key now1 now2 ttl (Inl (ErrorObj name msg)) ws)
          = [LogError ''Completion failed:'' (ErrorObj name msg)]"
    by (simp add: fetchCompletion_failure fetchCompletion_catch_def)
next
  assume a: "fst (getCompletion P now1 key ws) = None \<and> cleaned_suggestion cl c = Inl late"
  then have f: "fetchCompletion cl P key now1 now2 ttl (Inr c) ws =
     \<lparr> returned = Inr (fst (fetchCompletion_catch late)), logged = snd (fetchCompletion_catch late),
       cache_after = snd (getCompletion P now1 key ws), called_api = True \<rparr>"
    by (intro fetchCompletion_late_failure) simp_all
  have l: "fetchCompletion_catch late = ([], [LogError ''Completion failed:'' late])"
    using cleaned_suggestion_failure [of cl c late] a type_errors_logged by auto
  show "returned (fetchCompletion cl P key now1 now2 ttl (Inr c) ws) = Inr []"
    by (simp add: f l)
  show "logged (fetchCompletion cl P key now1 now2 ttl (Inr c) ws)
            = [LogError ''Completion failed:'' late]"
    by (simp add: f l)
  show "cache_after (fetchCompletion cl P key now1 now2 ttl (Inr c) ws)
            = snd (getCompletion P now1 key ws)"
    by (simp add: f)
next
  assume "\<forall>rq. platform_answer (fetch rq)"
  then show "result (createCompletion cfg stored fetch t1 t2 req cb) \<noteq> Inl NonError"
    by (rule createCompletion_throws_errors)
qed

lemma failed_500_eq: "failed_500 = Inl (ErrorObj ''Error'' ''API Error 500: Internal Server Error'')"
  by (simp add: failed_500_def createCompletion_def checkCircuitBreaker_def new_circuitBreaker_def
        getApiKey_def network_500_def response_500_def ok_def handleFailure_def rethrow_def
        new_Error_def show_int_def show_nat.simps Let_def)

lemma failed_aborted_eq: "failed_aborted = Inl (ErrorObj ''Error'' ''Request timeout or cancelled'')"
  by (simp add: failed_aborted_def createCompletion_def checkCircuitBreaker_def new_circuitBreaker_def
        getApiKey_def network_aborted_def rethrow_def new_Error_def Let_def)

lemma empty_cache_miss: "getCompletion P now key Map.empty = (None, Map.empty)"
  by (simp add: getCompletion_def)

theorem fetchCompletion_swallows_failures_witness:
  "fst (getCompletion ''completion:'' 2000 ''completion:ab12''
         (Map.empty :: inline_item workspace_state)) = None
   \<and> (\<forall>rq. platform_answer (network_500 rq)) \<and> (\<forall>rq. platform_answer (network_aborted rq))
   \<and> failed_500 \<noteq> Inl NonError \<and> failed_aborted \<noteq> Inl NonError
   \<and> fetchCompletion (\<lambda>s. s) ''completion:'' ''completion:ab12'' 2000 2001 300 failed_500 Map.empty
      = \<lparr> returned = Inr [],
          logged = [LogError ''Completion failed:''
                      (ErrorObj ''Error'' ''API Error 500: Internal Server Error'')],
          cache_after = Map.empty, called_api = True \<rparr>
   \<and> fetchCompletion (\<lambda>s. s) ''completion:'' ''completion:ab12'' 2000 2001 300 failed_aborted Map.empty
      = \<lparr> returned = Inr [], logged = [], cache_after = Map.empty, called_api = True \<rparr>
   \<and> cleaned_suggestion (\<lambda>s. s) JNull
      = Inl (ErrorObj ''TypeError'' ''Cannot read properties of null (reading 'choices')'')
   \<and> fetchCompletion (\<lambda>s. s) ''completion:'' ''completion:ab12'' 2000 2001 300 (Inr JNull) Map.empty
      = \<lparr> returned = Inr [],
          logged = [LogError ''Completion failed:''
                      (ErrorObj ''TypeError'' ''Cannot read properties of null (reading 'choices')'')],
          cache_after = Map.empty, called_api = True \<rparr>"
proof -
  have miss: "fst (getCompletion ''completion:'' 2000 ''completion:ab12''
      (Map.empty :: inline_item workspace_state)) = None"
    by (simp add: empty_cache_miss)
  have nc: "''Error'' \<noteq> ''AbortError''
      \<and> \<not> includes_str ''API Error 500: Internal Server Error'' ''cancelled''"
    by (simp add: startsWith_def)
  have c: "includes_str ''Request timeout or cancelled'' ''cancelled''"
    by (simp add: startsWith_def)
  have p5: "\<forall>rq. platform_answer (network_500 rq)"
    by (simp add: platform_answer_def network_500_def response_500_def)
  have pa: "\<forall>rq. platform_answer (network_aborted rq)"
    by (simp add: platform_answer_def network_aborted_def)
  have cs: "cleaned_suggestion (\<lambda>s. s) JNull
      = Inl (ErrorObj ''TypeError'' ''Cannot read properties of null (reading 'choices')'')"
    by (simp add: cleaned_suggestion_def)
  let ?e5 = "ErrorObj ''Error'' ''API Error 500: Internal Server Error''"
  let ?ec = "ErrorObj ''Error'' ''Request timeout or cancelled''"
  let ?et = "ErrorObj ''TypeError'' ''Cannot read properties of null (reading 'choices')''"
  note A = fetchCompletion_swallows_failures [of "\<lambda>s. s" "''completion:''" "''completion:ab12''" 2000
      2001 300 failed_500 Map.empty ?e5 "''Error''" "''API Error 500: Internal Server Error''" "''x''"
      JNull ?et network_500 example_cfg "Some ''sk-1''" 1000 1001 example_request
      "new_circuitBreaker example_cfg"]
  note B = fetchCompletion_swallows_failures [of "\<lambda>s. s" "''completion:''" "''completion:ab12''" 2000
      2001 300 failed_aborted Map.empty ?ec "''Error''" "''Request timeout or cancelled''" "''x''"
      JNull ?et network_aborted example_cfg "Some ''sk-1''" 1000 1001 example_request
      "new_circuitBreaker example_cfg"]
  let ?f = "fetchCompletion (\<lambda>s. s) ''completion:'' ''completion:ab12'' 2000 2001 300"
  have A1: "returned (?f (Inl ?e5) Map.empty) = Inr []"
    using A miss by blast
  have A2: "cache_after (?f (Inl ?e5) Map.empty)
      = snd (getCompletion ''completion:'' 2000 ''completion:ab12'' Map.empty)"
    using A miss by blast
  have A3: "logged (?f (Inl ?e5) Map.empty) = [LogError ''Completion failed:'' ?e5]"
    using A miss nc by blast
  have A4: "failed_500 \<noteq> Inl NonError"
    unfolding failed_500_def
    by (rule A [THEN conjunct2, THEN conjunct2, THEN conjunct2, THEN conjunct2, THEN conjunct2,
                THEN conjunct2, THEN mp, OF p5])
  have B1: "returned (?f (Inl ?ec) Map.empty) = Inr []"
    using B miss by blast
  have B2: "cache_after (?f (Inl ?ec) Map.empty)
      = snd (getCompletion ''completion:'' 2000 ''completion:ab12'' Map.empty)"
    using B miss by blast
  have B3: "logged (?f (Inl ?ec) Map.empty) = []"
    using B miss c by blast
  have B4: "failed_aborted \<noteq> Inl NonError"
    unfolding failed_aborted_def
    by (rule B [THEN conjunct2, THEN conjunct2, THEN conjunct2, THEN conjunct2, THEN conjunct2,
                THEN conjunct2, THEN mp, OF pa])
  have T: "returned (?f (Inr JNull) Map.empty) = Inr []
      \<and> logged (?f (Inr JNull) Map.empty) = [LogError ''Completion failed:'' ?et]
      \<and> cache_after (?f (Inr JNull) Map.empty)
          = snd (getCompletion ''completion:'' 2000 ''completion:ab12'' Map.empty)"
    using A [THEN conjunct2, THEN conjunct2, THEN conjunct2, THEN conjunct2, THEN conjunct2,
             THEN conjunct1, THEN mp, OF conjI [OF miss cs]] .
  have D: "called_api (?f (Inl ?e5) Map.empty)" "called_api (?f (Inl ?ec) Map.empty)"
    by (simp_all add: fetchCompletion_failure [OF miss])
  have D3: "called_api (?f (Inr JNull) Map.empty)"
    by (simp add: fetchCompletion_late_failure [OF miss cs])
  have E: "\<And>x :: fetch_outcome. x = \<lparr> returned = returned x, logged = logged x,
      cache_after = cache_after x, called_api = called_api x \<rparr>"
    by simp
  have F5: "?f failed_500 Map.empty = \<lparr> returned = Inr [], logged = [LogError ''Completion failed:'' ?e5],
          cache_after = Map.empty, called_api = True \<rparr>"
    using E [of "?f (Inl ?e5) Map.empty"] A1 A2 A3 D(1)
    by (simp only: failed_500_eq empty_cache_miss snd_conv simp_thms)
  have Fc: "?f failed_aborted Map.empty = \<lparr> returned = Inr [], logged = [],
          cache_after = Map.empty, called_api = True \<rparr>"
    using E [of "?f (Inl ?ec) Map.empty"] B1 B2 B3 D(2)
    by (simp only: failed_aborted_eq empty_cache_miss snd_conv simp_thms)
  have Ft: "?f (Inr JNull) Map.empty = \<lparr> returned = Inr [], logged = [LogError ''Completion failed:'' ?et],
          cache_after = Map.empty, called_api = True \<rparr>"
    using E [of "?f (Inr JNull) Map.empty"] T D3
    by (simp only: empty_cache_miss snd_conv simp_thms)
  show ?thesis by (intro conjI miss p5 pa A4 B4 F5 Fc cs Ft)
qed

section \<open>Superseded debounce timers\<close>

lemma clearTimeout_promises [simp]: "promises (clearTimeout t w) = promises w"
  by (simp add: clearTimeout_def)

lemma clearTimeout_length [simp]: "length (timers (clearTimeout t w)) = length (timers w)"
  by (simp add: clearTimeout_def)

lemma clearTimeout_snd:
  "i < length (timers w) \<Longrightarrow> snd (timers (clearTimeout t w) ! i) = snd (timers w ! i)"
  by (simp add: clearTimeout_def nth_list_update)

lemma clearTimeout_armed:
  "i < length (timers w) \<Longrightarrow> fst (timers (clearTimeout t w) ! i) = Armed \<Longrightarrow>
   fst (timers w ! i) = Armed"
  by (auto simp: clearTimeout_def nth_list_update split: if_splits)

lemma cleared_simps [simp]:
  "promises (cleared w) = promises w" "length (timers (cleared w)) = length (timers w)"
  by (simp_all add: cleared_def split: option.splits)

lemma cleared_snd: "i < length (timers w) \<Longrightarrow> snd (timers (cleared w) ! i) = snd (timers w ! i)"
  by (simp add: cleared_def clearTimeout_snd split: option.splits)

lemma cleared_armed:
  "i < length (timers w) \<Longrightarrow> fst (timers (cleared w) ! i) = Armed \<Longrightarrow> fst (timers w ! i) = Armed"
  by (auto simp: cleared_def dest: clearTimeout_armed split: option.splits)

lemma step_automatic:
  "provider_step CallAutomatic w =
     (cleared w)\<lparr> timers := timers (cleared w) @ [(Armed, length (promises w))],
                  promises := promises w @ [Pending],
                  debounceTimer := Some (length (timers w)) \<rparr>"
  by (simp add: cleared_def Let_def split: option.splits)

declare provider_step.simps(3) [simp del]

lemma targets_exist_step: "targets_exist w \<Longrightarrow> targets_exist (provider_step e w)"
proof (cases e)
  case CallAutomatic
  assume a: "targets_exist w"
  show ?thesis
    unfolding CallAutomatic step_automatic targets_exist_def
    using a by (auto simp: targets_exist_def nth_append cleared_snd less_Suc_eq)
next
  case (TimerFires t c xs)
  assume "targets_exist w"
  then show ?thesis
    unfolding targets_exist_def using TimerFires
    by (auto simp: nth_list_update)
qed (auto simp: targets_exist_def less_Suc_eq)

lemma targets_exist_run: "targets_exist w \<Longrightarrow> targets_exist (provider_run es w)"
  by (induction es arbitrary: w) (simp_all add: targets_exist_step)

lemma targets_exist_new: "targets_exist new_provider"
  by (simp add: targets_exist_def new_provider_def)

lemma abandoned_step: "abandoned p w \<Longrightarrow> abandoned p (provider_step e w)"
proof (cases e)
  case CallUnsupported
  assume "abandoned p w"
  then show ?thesis using CallUnsupported by (auto simp: abandoned_def nth_append)
next
  case (CallInvoke xs)
  assume "abandoned p w"
  then show ?thesis using CallInvoke by (auto simp: abandoned_def nth_append)
next
  case CallAutomatic
  assume a: "abandoned p w"
  show ?thesis
    unfolding CallAutomatic step_automatic abandoned_def
    using a by (auto simp: abandoned_def nth_append cleared_snd less_Suc_eq dest: cleared_armed)
next
  case (TimerFires t c xs)
  assume a: "abandoned p w"
  show ?thesis
  proof (cases "t < length (timers w) \<and> fst (timers w ! t) = Armed")
    case True
    then have ne: "snd (timers w ! t) \<noteq> p" using a by (auto simp: abandoned_def)
    then show ?thesis using a True TimerFires by (auto simp: abandoned_def nth_list_update)
  next
    case False
    then show ?thesis using a TimerFires by auto
  qed
qed

lemma abandoned_run: "abandoned p w \<Longrightarrow> abandoned p (provider_run es w)"
  by (induction es arbitrary: w) (simp_all add: abandoned_step)

lemma waiting_step:
  assumes "waiting t p w" "\<not> is_fire_of t e" "e \<noteq> CallAutomatic"
  shows "waiting t p (provider_step e w)"
proof (cases e)
  case CallUnsupported
  then show ?thesis using assms(1) by (auto simp: waiting_def targets_exist_def nth_append less_Suc_eq)
next
  case (CallInvoke xs)
  then show ?thesis using assms(1) by (auto simp: waiting_def targets_exist_def nth_append less_Suc_eq)
next
  case CallAutomatic
  then show ?thesis using assms(3) by simp
next
  case (TimerFires t' c xs)
  have tt: "t' \<noteq> t" using assms(2) TimerFires by (simp add: is_fire_of_def)
  show ?thesis
  proof (cases "t' < length (timers w) \<and> fst (timers w ! t') = Armed")
    case True
    have ne: "snd (timers w ! t') \<noteq> p" using assms(1) True tt by (simp add: waiting_def)
    have te: "targets_exist (provider_step e w)" using assms(1) by (simp add: waiting_def targets_exist_step)
    show ?thesis
      using assms(1) True tt ne te TimerFires
      by (auto simp: waiting_def nth_list_update)
  next
    case False
    then show ?thesis using assms(1) TimerFires by auto
  qed
qed

lemma waiting_run:
  "waiting t p w \<Longrightarrow> \<forall>e \<in> set es. \<not> is_fire_of t e \<and> e \<noteq> CallAutomatic \<Longrightarrow>
   waiting t p (provider_run es w)"
  by (induction es arbitrary: w) (simp_all add: waiting_step)

lemma automatic_starts_waiting:
  assumes "targets_exist w"
  shows "waiting (length (timers w)) (length (promises w)) (provider_step CallAutomatic w)"
proof -
  have te2: "targets_exist (provider_step CallAutomatic w)"
    using assms by (rule targets_exist_step)
  have old: "\<forall>i < length (timers w). snd (timers (cleared w) ! i) \<noteq> length (promises w)"
    using assms by (auto simp: targets_exist_def cleared_snd)
  show ?thesis
    unfolding waiting_def using te2 old
    by (auto simp: step_automatic nth_append less_Suc_eq)
qed

lemma automatic_abandons:
  assumes "waiting t p w"
  shows "abandoned p (provider_step CallAutomatic w)"
proof -
  have d: "debounceTimer w = Some t" and t: "t < length (timers w)" and a: "timers w ! t = (Armed, p)"
    and p: "p < length (promises w)" "promises w ! p = Pending"
    and u: "\<forall>i < length (timers w). i \<noteq> t \<longrightarrow> snd (timers w ! i) \<noteq> p"
    using assms by (simp_all add: waiting_def)
  have c: "timers (cleared w) = (timers w)[t := (Cleared, p)]"
    using d t a by (simp add: cleared_def clearTimeout_def)
  have "\<forall>i < length (timers w). snd ((timers w)[t := (Cleared, p)] ! i) = p
      \<longrightarrow> fst ((timers w)[t := (Cleared, p)] ! i) \<noteq> Armed"
    using u t by (auto simp: nth_list_update split: if_splits)
  then show ?thesis
    unfolding abandoned_def step_automatic using p c
    by (auto simp: nth_append less_Suc_eq)
qed

lemma provider_run_append:
  "provider_run (xs @ ys) w = provider_run ys (provider_run xs w)"
  by (induction xs arbitrary: w) simp_all

text \<open>
  C10: take a provider in any reachable state and an automatic trigger on it; its promise is
  the next one, and its timer the next timer.  If that timer has not fired when the next
  automatic trigger arrives (whatever else happened in between), then after that trigger and
  after every further sequence of events the promise of the superseded trigger is still
  pending: the only call of its \<^verbatim>\<open>resolve\<close> is in the callback of the timer that was cleared.
\<close>

theorem superseded_promise_never_settles:
  "w = provider_run es0 new_provider
   \<and> (\<forall>e \<in> set es1. \<not> is_fire_of (length (timers w)) e \<and> e \<noteq> CallAutomatic)
   \<longrightarrow> length (promises w) < length (promises (provider_run (CallAutomatic # es1 @ CallAutomatic # es2) w))
       \<and> promises (provider_run (CallAutomatic # es1 @ CallAutomatic # es2) w) ! length (promises w)
           = Pending"
proof
  assume a: "w = provider_run es0 new_provider
   \<and> (\<forall>e \<in> set es1. \<not> is_fire_of (length (timers w)) e \<and> e \<noteq> CallAutomatic)"
  let ?t = "length (timers w)" and ?p = "length (promises w)"
  have te: "targets_exist w" using a by (simp add: targets_exist_run targets_exist_new)
  have nf: "\<forall>e \<in> set es1. \<not> is_fire_of ?t e \<and> e \<noteq> CallAutomatic" using a by blast
  have w1: "waiting ?t ?p (provider_step CallAutomatic w)"
    using te by (rule automatic_starts_waiting)
  have w2: "waiting ?t ?p (provider_run es1 (provider_step CallAutomatic w))"
    using w1 nf by (rule waiting_run)
  have w3: "abandoned ?p (provider_step CallAutomatic (provider_run es1 (provider_step CallAutomatic w)))"
    using w2 by (rule automatic_abandons)
  have w4: "abandoned ?p (provider_run es2
      (provider_step CallAutomatic (provider_run es1 (provider_step CallAutomatic w))))"
    using w3 by (rule abandoned_run)
  have eq: "provider_run (CallAutomatic # es1 @ CallAutomatic # es2) w
      = provider_run es2 (provider_step CallAutomatic (provider_run es1 (provider_step CallAutomatic w)))"
    by (simp add: provider_run_append)
  show "length (promises w) < length (promises (provider_run (CallAutomatic # es1 @ CallAutomatic # es2) w))
       \<and> promises (provider_run (CallAutomatic # es1 @ CallAutomatic # es2) w) ! length (promises w)
           = Pending"
    using w4 unfolding eq abandoned_def by simp
qed

lemma example_provider_eq:
  "example_provider
     = \<lparr> timers = [(Fired, 1)], promises = [Resolved [], Resolved []], debounceTimer = Some 0 \<rparr>"
  by (simp add: example_provider_def new_provider_def provider_step.simps(3) clearTimeout_def Let_def)

theorem superseded_promise_never_settles_witness:
  "example_provider = provider_run [CallInvoke [], CallAutomatic, TimerFires 0 False []] new_provider
   \<and> provider_run
         (CallAutomatic # [CallUnsupported, TimerFires 0 False []]
            @ CallAutomatic # [TimerFires 1 False [], TimerFires 2 False []]) example_provider
     = \<lparr> timers = [(Fired, 1), (Cleared, 2), (Fired, 4)],
         promises = [Resolved [], Resolved [], Pending, Resolved [], Resolved []],
         debounceTimer = Some 2 \<rparr>
   \<and> length (promises example_provider) = 2
   \<and> promises (provider_run
         (CallAutomatic # [CallUnsupported, TimerFires 0 False []]
            @ CallAutomatic # [TimerFires 1 False [], TimerFires 2 False []]) example_provider)
       ! length (promises example_provider)
     = Pending"
proof -
  have h: "\<forall>e \<in> set [CallUnsupported, TimerFires 0 False []].
      \<not> is_fire_of (length (timers example_provider)) e \<and> e \<noteq> CallAutomatic"
    by (simp add: example_provider_eq is_fire_of_def)
  have r: "provider_run
         (CallAutomatic # [CallUnsupported, TimerFires 0 False []]
            @ CallAutomatic # [TimerFires 1 False [], TimerFires 2 False []]) example_provider
     = \<lparr> timers = [(Fired, 1), (Cleared, 2), (Fired, 4)],
         promises = [Resolved [], Resolved [], Pending, Resolved [], Resolved []],
         debounceTimer = Some 2 \<rparr>"
    by (simp add: example_provider_eq provider_step.simps(3) clearTimeout_def Let_def)
  have p: "promises (provider_run
         (CallAutomatic # [CallUnsupported, TimerFires 0 False []]
            @ CallAutomatic # [TimerFires 1 False [], TimerFires 2 False []]) example_provider)
       ! length (promises example_provider) = Pending"
    using superseded_promise_never_settles [of example_provider
        "[CallInvoke [], CallAutomatic, TimerFires 0 False []]"
        "[CallUnsupported, TimerFires 0 False []]" "[TimerFires 1 False [], TimerFires 2 False []]"] h
    unfolding example_provider_def [symmetric] by blast
  have l: "length (promises example_provider) = 2" by (simp add: example_provider_eq)
  show ?thesis by (intro conjI example_provider_def r l p)
qed

section \<open>The stream parser and chunk boundaries\<close>

lemma LF_neq_CR [simp]: "LF \<noteq> CR" "CR \<noteq> LF"
  by (simp_all add: LF_def CR_def)

lemma split_lines_nonempty [simp]: "split_lines s \<noteq> []"
  by (induction s rule: split_lines.induct) (auto split: list.splits)

lemma split_lines_LF: "split_lines (LF # s) = [] # split_lines s"
  by (cases s) auto

lemma split_lines_single: "split_lines s = [x] \<Longrightarrow> x = s"
  by (induction s arbitrary: x rule: split_lines.induct) (auto split: if_splits list.splits)

lemma split_lines_no_LF: "LF \<notin> set s \<Longrightarrow> split_lines s = [s]"
  by (induction s rule: split_lines.induct) (auto split: list.splits)

lemma split_lines_last_no_LF: "LF \<notin> set (last (split_lines s))"
  by (induction s rule: split_lines.induct) (auto split: list.splits)

lemma split_lines_append:
  "split_lines (s @ t) = butlast (split_lines s) @ split_lines (last (split_lines s) @ t)"
proof (induction s rule: split_lines.induct)
  case 1
  then show ?case by simp
next
  case (2 c)
  then show ?case by (simp add: split_lines_LF)
next
  case (3 c d cs)
  show ?case
  proof (cases "c = CR \<and> d = LF")
    case True
    then show ?thesis using 3(1) by simp
  next
    case False
    note nb = False
    show ?thesis
    proof (cases "c = LF")
      case True
      then show ?thesis using 3(2) nb by (simp add: split_lines_LF)
    next
      case False
      obtain l ls where l: "split_lines (d # cs) = l # ls"
        by (cases "split_lines (d # cs)") simp_all
      have s: "split_lines (c # d # cs) = (c # l) # ls"
        using nb False l by auto
      show ?thesis
      proof (cases ls)
        case Nil
        then have "c # l = c # d # cs" using l split_lines_single [of "d # cs" l] by simp
        then show ?thesis using s Nil by simp
      next
        case (Cons a as)
        have ih: "split_lines ((d # cs) @ t) = butlast (l # ls) @ split_lines (last (l # ls) @ t)"
          using 3(3) nb False l by auto
        have "split_lines ((c # d # cs) @ t)
            = (case split_lines ((d # cs) @ t) of [] \<Rightarrow> [[c]] | l # ls \<Rightarrow> (c # l) # ls)"
          using nb False by auto
        then show ?thesis using ih s Cons by simp
      qed
    qed
  qed
qed

lemma process_lines_append:
  "process_lines parse (xs @ ys) =
     (case process_lines parse xs of
        (a, True) \<Rightarrow> (a, True)
      | (a, False) \<Rightarrow> (case process_lines parse ys of (b, fin) \<Rightarrow> (a @ b, fin)))"
  by (induction xs) (auto simp: Let_def split: prod.splits option.splits bool.splits)

text \<open>
  Without cancellation, what the loop yields depends on the concatenation of the chunks
  only: it is what the complete lines of the whole text yield.
\<close>

lemma sse_loop_concat:
  "LF \<notin> set buffer \<Longrightarrow> \<forall>i. \<not> cancelled i \<Longrightarrow>
   sse_loop parse cancelled i buffer chunks =
     (case process_lines parse (butlast (split_lines (buffer @ concat chunks))) of
        (ys, fin) \<Rightarrow> (ys, if fin then Done else Closed))"
proof (induction chunks arbitrary: buffer i)
  case Nil
  then show ?case by (simp add: split_lines_no_LF)
next
  case (Cons c cs)
  let ?lines = "split_lines (buffer @ c)"
  have ih: "sse_loop parse cancelled (Suc i) (last ?lines) cs =
     (case process_lines parse (butlast (split_lines (last ?lines @ concat cs))) of
        (ys, fin) \<Rightarrow> (ys, if fin then Done else Closed))"
    using Cons.IH [of "last ?lines" "Suc i"] Cons.prems(2) split_lines_last_no_LF [of "buffer @ c"]
    by blast
  have sp: "butlast (split_lines (buffer @ concat (c # cs)))
      = butlast ?lines @ butlast (split_lines (last ?lines @ concat cs))"
    using split_lines_append [of "buffer @ c" "concat cs"] by (simp add: butlast_append)
  have nc: "\<not> cancelled i" using Cons.prems(2) by blast
  obtain ys fin where p1: "process_lines parse (butlast ?lines) = (ys, fin)"
    by (cases "process_lines parse (butlast ?lines)")
  obtain zs fin2 where
    p2: "process_lines parse (butlast (split_lines (last ?lines @ concat cs))) = (zs, fin2)"
    by (cases "process_lines parse (butlast (split_lines (last ?lines @ concat cs)))")
  show ?case
  proof (cases fin)
    case True
    have l: "sse_loop parse cancelled i buffer (c # cs) = (ys, Done)"
      using nc p1 True by simp
    have r: "process_lines parse (butlast (split_lines (buffer @ concat (c # cs)))) = (ys, True)"
      using p1 True by (simp only: sp process_lines_append split: prod.splits) simp
    show ?thesis by (simp only: l r split: prod.splits) simp
  next
    case False
    have l: "sse_loop parse cancelled i buffer (c # cs) = (ys @ zs, if fin2 then Done else Closed)"
      using nc p1 p2 False by (simp add: ih)
    have r: "process_lines parse (butlast (split_lines (buffer @ concat (c # cs)))) = (ys @ zs, fin2)"
      using p1 p2 False by (simp only: sp process_lines_append split: prod.splits) simp
    show ?thesis by (simp only: l r split: prod.splits) simp
  qed
qed


lemma split_sse_body:
  "split_lines sse_body =
     [''data: '' @ payload_ab, [], ''data: '' @ payload_cd, [], ''data: [DONE]'', [], []]"
  by (simp add: sse_body_def payload_ab_def payload_cd_def LF_def CR_def)

lemma split_sse_body_crlf:
  "split_lines sse_body_crlf =
     [''data: '' @ payload_ab, [], ''data: '' @ payload_cd, [], ''data: [DONE]'', [], []]"
  by (simp add: sse_body_crlf_def payload_ab_def payload_cd_def LF_def CR_def)

lemma sse_content_delta:
  "parse data = Some (delta_record s) \<Longrightarrow> s \<noteq> [] \<Longrightarrow> sse_content parse data = Some (JStr s)"
  by (simp add: sse_content_def delta_record_def)

lemma process_data_line:
  "startsWith line ''data: '' \<Longrightarrow> drop 6 line \<noteq> ''[DONE]'' \<Longrightarrow>
   sse_content parse (drop 6 line) = Some v \<Longrightarrow>
   process_lines parse (line # rest)
     = (v # fst (process_lines parse rest), snd (process_lines parse rest))"
  by (simp add: Let_def split: prod.splits)

lemma process_other_line:
  "\<not> startsWith line ''data: '' \<Longrightarrow> process_lines parse (line # rest) = process_lines parse rest"
  by simp

lemma process_done_line:
  "startsWith line ''data: '' \<Longrightarrow> drop 6 line = ''[DONE]'' \<Longrightarrow>
   process_lines parse (line # rest) = ([], True)"
  by (simp add: Let_def)

lemma process_body_lines:
  assumes "parse payload_ab = Some (delta_record ''ab'')" "parse payload_cd = Some (delta_record ''cd'')"
  shows "process_lines parse [''data: '' @ payload_ab, [], ''data: '' @ payload_cd, [], ''data: [DONE]'', []]
         = ([JStr ''ab'', JStr ''cd''], True)"
proof -
  have a: "sse_content parse (drop 6 (''data: '' @ payload_ab)) = Some (JStr ''ab'')"
    using assms(1) by (simp add: sse_content_delta)
  have c: "sse_content parse (drop 6 (''data: '' @ payload_cd)) = Some (JStr ''cd'')"
    using assms(2) by (simp add: sse_content_delta)
  have sa: "startsWith (''data: '' @ payload_ab) ''data: ''" "drop 6 (''data: '' @ payload_ab) \<noteq> ''[DONE]''"
    by (simp_all add: startsWith_def payload_ab_def)
  have sc: "startsWith (''data: '' @ payload_cd) ''data: ''" "drop 6 (''data: '' @ payload_cd) \<noteq> ''[DONE]''"
    by (simp_all add: startsWith_def payload_cd_def)
  have e: "\<not> startsWith [] ''data: ''" by (simp add: startsWith_def)
  have d: "startsWith ''data: [DONE]'' ''data: ''" "drop 6 ''data: [DONE]'' = ''[DONE]''"
    by (simp_all add: startsWith_def)
  have 1: "process_lines parse [''data: [DONE]'', []] = ([], True)"
    using d by (rule process_done_line)
  have 2: "process_lines parse [[], ''data: [DONE]'', []] = ([], True)"
    using process_other_line [OF e] 1 by simp
  have 3: "process_lines parse [''data: '' @ payload_cd, [], ''data: [DONE]'', []] = ([JStr ''cd''], True)"
    using process_data_line [OF sc c, of "[[], ''data: [DONE]'', []]"] 2 by (simp only: fst_conv snd_conv)
  have 4: "process_lines parse [[], ''data: '' @ payload_cd, [], ''data: [DONE]'', []] = ([JStr ''cd''], True)"
    using process_other_line [OF e] 3 by simp
  show ?thesis
    using process_data_line [OF sa a, of "[[], ''data: '' @ payload_cd, [], ''data: [DONE]'', []]"] 4
    by (simp only: fst_conv snd_conv)
qed

lemma parseSSE_body:
  assumes "parse payload_ab = Some (delta_record ''ab'')" "parse payload_cd = Some (delta_record ''cd'')"
      and "concat chunks = sse_body \<or> concat chunks = sse_body_crlf"
      and "token = None \<or> (\<exists>c. token = Some c \<and> (\<forall>i. \<not> c i))"
  shows "parseSSE parse token (Some chunks) = ([JStr ''ab'', JStr ''cd''], Inr Done)"
proof -
  let ?c = "case token of None \<Rightarrow> (\<lambda>_. False) | Some c \<Rightarrow> c"
  have nc: "\<forall>i. \<not> ?c i" using assms(4) by auto
  have sp: "butlast (split_lines ([] @ concat chunks))
      = [''data: '' @ payload_ab, [], ''data: '' @ payload_cd, [], ''data: [DONE]'', []]"
    using assms(3) by (auto simp: split_sse_body split_sse_body_crlf)
  have "sse_loop parse ?c 0 [] chunks = ([JStr ''ab'', JStr ''cd''], Done)"
    using sse_loop_concat [of "[]" ?c parse 0 chunks] nc
    by (simp only: sp process_body_lines [OF assms(1,2)] split: prod.splits) simp
  then show ?thesis by (simp add: parseSSE_def)
qed


text \<open>
  C2: let \<^verbatim>\<open>JSON.parse\<close> read the two records of the test stream as the objects they denote, and
  let nothing be cancelled.  Then for every way of cutting the body of the test stream into
  three chunks (empty chunks included), \<^verbatim>\<open>parseSSE\<close> yields exactly the fragments \<^verbatim>\<open>ab\<close> and
  \<^verbatim>\<open>cd\<close> and returns at the \<^verbatim>\<open>[DONE]\<close> sentinel, without an error.  The same holds for the body
  with \<^verbatim>\<open>\r\n\<close> line ends, also when a chunk ends between the \<^verbatim>\<open>\r\<close> and the \<^verbatim>\<open>\n\<close>, and for
  any number of chunks.
\<close>

theorem parseSSE_chunk_boundaries:
  "parse payload_ab = Some (delta_record ''ab'') \<and> parse payload_cd = Some (delta_record ''cd'')
   \<and> (token = None \<or> (\<exists>c. token = Some c \<and> (\<forall>i. \<not> c i)))
   \<longrightarrow> (c1 @ c2 @ c3 = sse_body \<longrightarrow>
          parseSSE parse token (Some [c1, c2, c3]) = ([JStr ''ab'', JStr ''cd''], Inr Done))
       \<and> (c1 @ c2 @ c3 = sse_body_crlf \<longrightarrow>
          parseSSE parse token (Some [c1, c2, c3]) = ([JStr ''ab'', JStr ''cd''], Inr Done))
       \<and> (concat chunks = sse_body \<or> concat chunks = sse_body_crlf \<longrightarrow>
          parseSSE parse token (Some chunks) = ([JStr ''ab'', JStr ''cd''], Inr Done))"
proof (intro impI conjI)
  assume a: "parse payload_ab = Some (delta_record ''ab'') \<and> parse payload_cd = Some (delta_record ''cd'')
   \<and> (token = None \<or> (\<exists>c. token = Some c \<and> (\<forall>i. \<not> c i)))"
  then have p: "parse payload_ab = Some (delta_record ''ab'')" "parse payload_cd = Some (delta_record ''cd'')"
    and t: "token = None \<or> (\<exists>c. token = Some c \<and> (\<forall>i. \<not> c i))"
    by blast+
  {
    assume "c1 @ c2 @ c3 = sse_body"
    then have "concat [c1, c2, c3] = sse_body \<or> concat [c1, c2, c3] = sse_body_crlf" by simp
    then show "parseSSE parse token (Some [c1, c2, c3]) = ([JStr ''ab'', JStr ''cd''], Inr Done)"
      using p t by (intro parseSSE_body)
  }
  {
    assume "c1 @ c2 @ c3 = sse_body_crlf"
    then have "concat [c1, c2, c3] = sse_body \<or> concat [c1, c2, c3] = sse_body_crlf" by simp
    then show "parseSSE parse token (Some [c1, c2, c3]) = ([JStr ''ab'', JStr ''cd''], Inr Done)"
      using p t by (intro parseSSE_body)
  }
  {
    assume "concat chunks = sse_body \<or> concat chunks = sse_body_crlf"
    then show "parseSSE parse token (Some chunks) = ([JStr ''ab'', JStr ''cd''], Inr Done)"
      using p t by (intro parseSSE_body)
  }
qed

lemma json_parse_payloads:
  "json_parse payload_ab = Some (delta_record ''ab'')" "json_parse payload_cd = Some (delta_record ''cd'')"
  by code_simp+

theorem parseSSE_chunk_boundaries_witness:
  \<open>json_parse payload_ab = Some (delta_record ''ab'') \<and> json_parse payload_cd = Some (delta_record ''cd'')
   \<and> take 20 sse_body = ''data: {"choices":[{"''
   \<and> take 37 (drop 20 sse_body) = ''delta":{"content":"ab"}}]}'' @ [LF, LF] @ ''data: {"c''
   \<and> take 20 sse_body @ take 37 (drop 20 sse_body) @ drop 57 sse_body = sse_body
   \<and> parseSSE json_parse None (Some [take 20 sse_body, take 37 (drop 20 sse_body), drop 57 sse_body])
       = ([JStr ''ab'', JStr ''cd''], Inr Done)
   \<and> parseSSE json_parse None
        (Some [take 51 sse_body_crlf, take 1 (drop 51 sse_body_crlf), drop 52 sse_body_crlf])
       = ([JStr ''ab'', JStr ''cd''], Inr Done)\<close>
proof -
  have e: "take 20 sse_body @ take 37 (drop 20 sse_body) @ drop 57 sse_body = sse_body"
  proof -
    have "drop 57 sse_body = drop 37 (drop 20 sse_body)" by simp
    then show ?thesis by (simp only: append_take_drop_id)
  qed
  have e2: "take 51 sse_body_crlf @ take 1 (drop 51 sse_body_crlf) @ drop 52 sse_body_crlf = sse_body_crlf"
  proof -
    have "drop 52 sse_body_crlf = drop 1 (drop 51 sse_body_crlf)" by simp
    then show ?thesis by (simp only: append_take_drop_id)
  qed
  have c1: \<open>take 20 sse_body = ''data: {"choices":[{"''\<close>
    by (simp add: sse_body_def payload_ab_def)
  have c2: \<open>take 37 (drop 20 sse_body) = ''delta":{"content":"ab"}}]}'' @ [LF, LF] @ ''data: {"c''\<close>
    by (simp add: sse_body_def payload_ab_def payload_cd_def)
  have h: "json_parse payload_ab = Some (delta_record ''ab'')
      \<and> json_parse payload_cd = Some (delta_record ''cd'')
      \<and> (None = None \<or> (\<exists>c. (None :: (nat \<Rightarrow> bool) option) = Some c \<and> (\<forall>i. \<not> c i)))"
    by (intro conjI json_parse_payloads disjI1 refl)
  note T1 = parseSSE_chunk_boundaries [of json_parse None "take 20 sse_body" "take 37 (drop 20 sse_body)"
      "drop 57 sse_body" "[]", THEN mp, OF h]
  note T2 = parseSSE_chunk_boundaries [of json_parse None "take 51 sse_body_crlf"
      "take 1 (drop 51 sse_body_crlf)" "drop 52 sse_body_crlf" "[]", THEN mp, OF h]
  have r1: "parseSSE json_parse None (Some [take 20 sse_body, take 37 (drop 20 sse_body), drop 57 sse_body])
       = ([JStr ''ab'', JStr ''cd''], Inr Done)"
    by (rule T1 [THEN conjunct1, THEN mp, OF e])
  have r2: "parseSSE json_parse None
        (Some [take 51 sse_body_crlf, take 1 (drop 51 sse_body_crlf), drop 52 sse_body_crlf])
       = ([JStr ''ab'', JStr ''cd''], Inr Done)"
    by (rule T2 [THEN conjunct2, THEN conjunct1, THEN mp, OF e2])
  show ?thesis by (intro conjI json_parse_payloads e c1 c2 r1 r2)
qed

end
